theory Spec2Isabelle
  imports Complex_Main "HOL-Library.Log_Nat"
begin

section \<open>Structured text layout of the GUI TextBlock control\<close>

text \<open>
  A shallow embedding of the structured-text part of the TextBlock control: the width
  adapter \<open>_structuredTextWidth\<close>, run fusion \<open>_fuseStructuredTextParts\<close>, the default
  word splitter, the three line policies and \<open>_breakStructuredTextLines\<close>.

  Conventions of the model.
  \<^item> A JavaScript string is the list of its characters, each character a code point
    (\<open>nat\<close>); characters outside the basic plane (surrogate pairs) are not distinguished
    from other characters.
  \<^item> A JavaScript number is a type parameter \<open>'n\<close> of the data model, with a zero, an
    addition and the two comparisons \<open><\<close> and \<open>\<le>\<close>, of which no law is assumed: every
    function of the model is defined for every such type. The type \<open>jsnum\<close> below is the
    instance of the doubles (IEEE 754 binary64: rounding to nearest, ties to even, the
    infinities and NaN, every comparison with NaN false); \<open>real\<close> is the instance of
    exact arithmetic. A property proved for every number type holds for the doubles.
  \<^item> An optional field is an \<open>option\<close>; \<open>undefined\<close> is \<open>None\<close>.
  \<^item> Objects are values. The source mutates parts in place (the cached width, the text
    in the ellipsis policy and in fusion); every function of the model returns the parts
    it has changed. The arrays handed to fusion and to the width adapter by the policies
    hold pairwise distinct objects (words are fresh copies), so no update is seen through
    a second reference.
\<close>

subsection \<open>Data model\<close>

type_synonym jsstring = "nat list"

definition str :: "string \<Rightarrow> jsstring" where
  "str = map of_char"

text \<open>A colour is a CSS string or a gradient object; gradients are compared by identity.\<close>

datatype color = ColorString jsstring | CanvasGradient nat

record 'n StructuredTextPart =
  "text" :: jsstring
  color :: "color option"
  underline :: "bool option"
  lineThrough :: "bool option"
  fontStyle :: "jsstring option"
  fontWeight :: "jsstring option"
  outlineWidth :: "'n option"
  outlineColor :: "jsstring option"
  shadowColor :: "jsstring option"
  shadowBlur :: "'n option"
  shadowOffsetX :: "'n option"
  shadowOffsetY :: "'n option"
  width :: "'n option"

text \<open>
  A line: its parts and its computed width (field \<open>width\<close> of the source, set by every
  function that builds a line).
\<close>

record 'n StructuredTextLine =
  parts :: "'n StructuredTextPart list"
  lineWidth :: 'n

record 'n TextPartAttributes =
  attrColor :: color
  attrUnderline :: bool
  attrLineThrough :: bool
  attrFontStyle :: jsstring
  attrFontWeight :: jsstring
  attrOutlineWidth :: 'n
  attrOutlineColor :: jsstring
  attrShadowColor :: jsstring
  attrShadowBlur :: 'n
  attrShadowOffsetX :: 'n
  attrShadowOffsetY :: 'n

datatype TextWrapping = Clip | WordWrap | Ellipsis

record Style =
  styleFontStyle :: jsstring
  styleFontWeight :: jsstring

text \<open>
  The fields of the control that the layout reads. \<open>blockColor\<close>, the shadow fields,
  \<open>blockStyle\<close>, \<open>blockFontStyle\<close>, \<open>blockFontWeight\<close>, \<open>fontSize\<close> and \<open>fontFamily\<close> are
  members of the base class Control (\<open>this.color\<close>, \<open>this._style\<close>, ...).
\<close>

record 'n TextBlock =
  structuredText :: "'n StructuredTextPart list"
  textWrapping :: TextWrapping
  wordSplittingFunction :: "(jsstring \<Rightarrow> jsstring list) option"
  blockColor :: color
  blockOutlineWidth :: 'n
  blockOutlineColor :: jsstring
  blockShadowColor :: jsstring
  blockShadowBlur :: 'n
  blockShadowOffsetX :: 'n
  blockShadowOffsetY :: 'n
  blockUnderline :: bool
  blockLineThrough :: bool
  blockStyle :: "Style option"
  blockFontStyle :: jsstring
  blockFontWeight :: jsstring
  fontSize :: jsstring
  fontFamily :: jsstring

text \<open>
  The rendering context, as far as measuring uses it: the current font, the stack of
  saved states, and the number of calls of \<open>save\<close> and of \<open>restore\<close> made so far.
  \<open>measureText\<close> is the injected measurement service: the width of a text in a font.
\<close>

record CanvasContext =
  font :: jsstring
  savedStates :: "jsstring list"
  saveCalls :: nat
  restoreCalls :: nat

definition context_save :: "CanvasContext \<Rightarrow> CanvasContext" where
  "context_save context =
     context\<lparr>savedStates := font context # savedStates context,
             saveCalls := Suc (saveCalls context)\<rparr>"

definition context_restore :: "CanvasContext \<Rightarrow> CanvasContext" where
  "context_restore context =
     (case savedStates context of
        [] \<Rightarrow> context\<lparr>restoreCalls := Suc (restoreCalls context)\<rparr>
      | f # fs \<Rightarrow> context\<lparr>font := f, savedStates := fs,
                          restoreCalls := Suc (restoreCalls context)\<rparr>)"

subsection \<open>Attribute resolver\<close>

text \<open>The operator \<open>??\<close>.\<close>

fun nullish :: "'a option \<Rightarrow> 'a \<Rightarrow> 'a" where
  "nullish None d = d"
| "nullish (Some v) d = v"

definition inheritAttributes ::
  "'n TextBlock \<Rightarrow> 'n StructuredTextPart \<Rightarrow> 'n TextPartAttributes" where
  "inheritAttributes this part =
     \<lparr>attrColor = nullish (color part) (blockColor this),
      attrUnderline = nullish (underline part) (blockUnderline this),
      attrLineThrough = nullish (lineThrough part) (blockLineThrough this),
      attrFontStyle = nullish (fontStyle part)
         (nullish (map_option styleFontStyle (blockStyle this)) (blockFontStyle this)),
      attrFontWeight = nullish (fontWeight part)
         (nullish (map_option styleFontWeight (blockStyle this)) (blockFontWeight this)),
      attrOutlineWidth = nullish (outlineWidth part) (blockOutlineWidth this),
      attrOutlineColor = nullish (outlineColor part) (blockOutlineColor this),
      attrShadowColor = nullish (shadowColor part) (blockShadowColor this),
      attrShadowBlur = nullish (shadowBlur part) (blockShadowBlur this),
      attrShadowOffsetX = nullish (shadowOffsetX part) (blockShadowOffsetX this),
      attrShadowOffsetY = nullish (shadowOffsetY part) (blockShadowOffsetY this)\<rparr>"

definition setContextAttributesForMeasure ::
  "'n TextBlock \<Rightarrow> CanvasContext \<Rightarrow> 'n TextPartAttributes \<Rightarrow> CanvasContext" where
  "setContextAttributesForMeasure this context attr =
     context\<lparr>font := attrFontStyle attr @ str '' '' @ attrFontWeight attr @ str '' ''
                       @ fontSize this @ str '' '' @ fontFamily this\<rparr>"

subsection \<open>Width adapter\<close>

text \<open>
  One step of the \<open>reduce\<close> of \<open>_structuredTextWidth\<close>. The state is the parts already
  visited (with their width set), the accumulated width and the context.
\<close>

fun widthStep ::
  "'n::{zero,plus} TextBlock \<Rightarrow> (jsstring \<Rightarrow> jsstring \<Rightarrow> 'n) \<Rightarrow> bool \<Rightarrow>
   'n StructuredTextPart list \<times> 'n \<times> CanvasContext \<Rightarrow> 'n StructuredTextPart \<Rightarrow>
   'n StructuredTextPart list \<times> 'n \<times> CanvasContext" where
  "widthStep this measureText contextSaved (visited, acc, context) part =
     (case width part of
        None \<Rightarrow>
          (let context1 = (if \<not> contextSaved then context_save context else context);
               attr = inheritAttributes this part;
               context2 = setContextAttributesForMeasure this context1 attr;
               textMetricsWidth = measureText (font context2) (text part)
           in (visited @ [part\<lparr>width := Some textMetricsWidth\<rparr>],
               acc + textMetricsWidth, context2))
      | Some w \<Rightarrow> (visited @ [part], acc + w, context))"

text \<open>
  \<open>_structuredTextWidth\<close>: sets the width of each part that has none and returns the
  total. The local flag \<open>contextSaved\<close> is initialised to false and never assigned.
\<close>

definition structuredTextWidth ::
  "'n::{zero,plus} TextBlock \<Rightarrow> (jsstring \<Rightarrow> jsstring \<Rightarrow> 'n) \<Rightarrow>
   'n StructuredTextPart list \<Rightarrow> CanvasContext \<Rightarrow>
   'n StructuredTextPart list \<times> 'n \<times> CanvasContext" where
  "structuredTextWidth this measureText st context =
     (let contextSaved = False in
      case foldl (widthStep this measureText contextSaved) ([], 0, context) st of
        (st', w, context') \<Rightarrow>
          (st', w, if contextSaved then context_restore context' else context'))"

subsection \<open>Run fusion\<close>

text \<open>
  \<open>w || 0\<close> on an optional number: \<open>undefined\<close>, \<open>0\<close> and NaN are falsy. A number is
  truthy when it is below or above 0 (for NaN neither comparison holds).
\<close>

fun orZero :: "'n::{zero,plus,ord} option \<Rightarrow> 'n" where
  "orZero None = 0"
| "orZero (Some w) = (if w < 0 \<or> 0 < w then w else 0)"

text \<open>
  \<open>===\<close> on two optional numbers: both \<open>undefined\<close>, or both numbers and equal as numbers
  (\<open>a \<le> b\<close> and \<open>b \<le> a\<close>; NaN is not equal to itself). On strings, booleans and absent
  values \<open>===\<close> is equality; gradient objects are equal when they are the same object.
\<close>

fun strictEq :: "'n::ord option \<Rightarrow> 'n option \<Rightarrow> bool" where
  "strictEq None None = True"
| "strictEq (Some a) (Some b) = (a \<le> b \<and> b \<le> a)"
| "strictEq x y = False"

text \<open>The condition of the \<open>if\<close> in the fusion loop, in the order of the source.\<close>

definition sameOverrides :: "'n::{zero,plus,ord} StructuredTextPart \<Rightarrow> 'n StructuredTextPart \<Rightarrow> bool" where
  "sameOverrides l p \<longleftrightarrow>
     color l = color p
     \<and> strictEq (outlineWidth l) (outlineWidth p) \<and> outlineColor l = outlineColor p
     \<and> shadowColor l = shadowColor p \<and> strictEq (shadowBlur l) (shadowBlur p)
     \<and> strictEq (shadowOffsetX l) (shadowOffsetX p)
     \<and> strictEq (shadowOffsetY l) (shadowOffsetY p)
     \<and> underline l = underline p
     \<and> lineThrough l = lineThrough p
     \<and> fontStyle l = fontStyle p \<and> fontWeight l = fontWeight p"

text \<open>
  The loop of \<open>_fuseStructuredTextParts\<close> over the parts from index 1 on. \<open>lst\<close> is the
  variable \<open>last\<close> (the previous input part); \<open>lastInserted\<close> is the last element of
  \<open>output\<close>, updated in place by the source.
\<close>

fun fuseLoop ::
  "'n::{zero,plus,ord} StructuredTextPart \<Rightarrow> 'n StructuredTextPart list \<Rightarrow> 'n StructuredTextPart list \<Rightarrow>
   'n StructuredTextPart list" where
  "fuseLoop lst output [] = output"
| "fuseLoop lst output (part # rest) =
     (if sameOverrides lst part then
        (let lastInserted = last output;
             lastInserted' = lastInserted
               \<lparr>text := text lastInserted @ text part,
                width := Some (orZero (width lastInserted) + orZero (width part))\<rparr>
         in fuseLoop part (butlast output @ [lastInserted']) rest)
      else fuseLoop part (output @ [part]) rest)"

definition fuseStructuredTextParts ::
  "'n::{zero,plus,ord} StructuredTextPart list \<Rightarrow> 'n StructuredTextPart list" where
  "fuseStructuredTextParts st =
     (if length st \<le> 1 then st else fuseLoop (hd st) [hd st] (tl st))"

subsection \<open>Default word splitter\<close>

text \<open>
  \<open>regexp.exec(str)\<close> for the global regular expression \<open>/ +/g\<close>, started at the
  expression's \<open>lastIndex\<close>: the first maximal run of spaces at or after that index.
  The result is the pair of \<open>match.index\<close> and the new \<open>lastIndex\<close> of the expression
  (the end of the match), or \<open>None\<close> for \<open>null\<close>.
\<close>

definition regexpExec :: "jsstring \<Rightarrow> nat \<Rightarrow> (nat \<times> nat) option" where
  "regexpExec s reLastIndex =
     (if 32 \<in> set (drop reLastIndex s) then
        (let index = reLastIndex + length (takeWhile (\<lambda>c. c \<noteq> 32) (drop reLastIndex s))
         in Some (index, index + length (takeWhile (\<lambda>c. c = 32) (drop index s))))
      else None)"

definition slice :: "jsstring \<Rightarrow> nat \<Rightarrow> nat \<Rightarrow> jsstring" where
  "slice s a b = take (b - a) (drop a s)"

lemma length_takeWhile_neq_less:
  "x \<in> set xs \<Longrightarrow> length (takeWhile (\<lambda>c. c \<noteq> x) xs) < length xs"
  by (induction xs) auto

lemma regexpExec_progress:
  assumes "regexpExec s i = Some (index, j)"
  shows "i \<le> index" and "index < j" and "j \<le> length s" and "index < length s"
    and "s ! index = 32"
proof -
  let ?r = "drop i s"
  from assms have mem: "32 \<in> set ?r"
    by (auto simp: regexpExec_def split: if_splits)
  from assms have idx: "index = i + length (takeWhile (\<lambda>c. c \<noteq> 32) ?r)"
    and j: "j = index + length (takeWhile (\<lambda>c. c = 32) (drop index s))"
    by (auto simp: regexpExec_def Let_def split: if_splits)
  show "i \<le> index" using idx by simp
  have lt: "length (takeWhile (\<lambda>c. c \<noteq> 32) ?r) < length ?r"
    using mem by (rule length_takeWhile_neq_less)
  then show il: "index < length s" using idx by simp
  have "?r ! length (takeWhile (\<lambda>c. c \<noteq> 32) ?r) = 32"
    using nth_length_takeWhile [OF lt] by simp
  then show at: "s ! index = 32" using idx lt by simp
  have "drop index s = s ! index # drop (Suc index) s"
    using il by (simp add: Cons_nth_drop_Suc)
  then have "0 < length (takeWhile (\<lambda>c. c = 32) (drop index s))"
    using at by simp
  then show "index < j" using j by simp
  have "length (takeWhile (\<lambda>c. c = 32) (drop index s)) \<le> length (drop index s)"
    by (rule length_takeWhile_le)
  then show "j \<le> length s" using j il by simp
qed

text \<open>
  The \<open>while\<close> loop of \<open>_defaultWordSplittingFunction\<close>; the state is the expression's
  \<open>lastIndex\<close>, the variable \<open>lastIndex\<close> and the array \<open>splitted\<close>.
\<close>

function splitLoop :: "jsstring \<Rightarrow> nat \<Rightarrow> nat \<Rightarrow> jsstring list \<Rightarrow> nat \<times> jsstring list" where
  "splitLoop s reLastIndex lastIndex splitted =
     (case regexpExec s reLastIndex of
        None \<Rightarrow> (lastIndex, splitted)
      | Some (index, reLastIndex') \<Rightarrow>
          splitLoop s reLastIndex' index
            (if lastIndex < index then splitted @ [slice s lastIndex index] else splitted))"
  by pat_completeness auto
termination
proof (relation "measure (\<lambda>(s, reLastIndex, lastIndex, splitted). length s - reLastIndex)")
  show "wf (measure (\<lambda>(s, reLastIndex, lastIndex, splitted). length s - reLastIndex))"
    by simp
next
  fix s :: jsstring and reLastIndex lastIndex :: nat and splitted :: "jsstring list"
    and x2 :: "nat \<times> nat" and index reLastIndex' :: nat
  assume "regexpExec s reLastIndex = Some x2" and "(index, reLastIndex') = x2"
  then have e: "regexpExec s reLastIndex = Some (index, reLastIndex')" by simp
  have "reLastIndex < reLastIndex'" and "reLastIndex' \<le> length s"
    using regexpExec_progress [OF e] by simp_all
  then show "((s, reLastIndex', index,
               if lastIndex < index then splitted @ [slice s lastIndex index] else splitted),
              s, reLastIndex, lastIndex, splitted)
             \<in> measure (\<lambda>(s, reLastIndex, lastIndex, splitted). length s - reLastIndex)"
    by simp
qed

declare splitLoop.simps [simp del]

definition defaultWordSplittingFunction :: "jsstring \<Rightarrow> jsstring list" where
  "defaultWordSplittingFunction s =
     (case splitLoop s 0 0 [] of
        (lastIndex, splitted) \<Rightarrow>
          if lastIndex < length s then splitted @ [drop lastIndex s] else splitted)"

subsection \<open>Facts about the width adapter\<close>

text \<open>
  The font in which a part is measured, and the part after the adapter has visited it.
\<close>

definition partFont :: "'n TextBlock \<Rightarrow> 'n StructuredTextPart \<Rightarrow> jsstring" where
  "partFont this part =
     attrFontStyle (inheritAttributes this part) @ str '' ''
       @ attrFontWeight (inheritAttributes this part) @ str '' ''
       @ fontSize this @ str '' '' @ fontFamily this"

definition measured ::
  "'n TextBlock \<Rightarrow> (jsstring \<Rightarrow> jsstring \<Rightarrow> 'n) \<Rightarrow> 'n StructuredTextPart \<Rightarrow> 'n StructuredTextPart" where
  "measured this measureText part =
     (case width part of
        None \<Rightarrow> part\<lparr>width := Some (measureText (partFont this part) (text part))\<rparr>
      | Some w \<Rightarrow> part)"

lemma widthStep_parts:
  "fst (foldl (widthStep this m b) (visited, acc, ctx) st)
     = visited @ map (measured this m) st"
proof (induction st arbitrary: visited acc ctx)
  case Nil
  show ?case by simp
next
  case (Cons p ps)
  show ?case
    by (cases "width p")
       (simp_all add: Cons.IH Let_def measured_def partFont_def
          setContextAttributesForMeasure_def)
qed

lemma widthStep_sum:
  "fst (snd (foldl (widthStep this m b) (visited, acc, ctx) st))
     = foldl (+) acc (map (\<lambda>p. the (width (measured this m p))) st)"
proof (induction st arbitrary: visited acc ctx)
  case Nil
  show ?case by simp
next
  case (Cons p ps)
  show ?case
    by (cases "width p")
       (simp_all add: Cons.IH Let_def measured_def partFont_def
          setContextAttributesForMeasure_def)
qed

lemma structuredTextWidth_parts:
  "fst (structuredTextWidth this m st ctx) = map (measured this m) st"
  using widthStep_parts [of this m False "[]" 0 ctx st]
  by (simp add: structuredTextWidth_def split: prod.splits)

lemma structuredTextWidth_sum:
  "fst (snd (structuredTextWidth this m st ctx))
     = foldl (+) 0 (map (\<lambda>p. the (width (measured this m p))) st)"
  using widthStep_sum [of this m False "[]" 0 ctx st]
  by (simp add: structuredTextWidth_def split: prod.splits)

text \<open>
  The width of a part that carries one (0 stands for a part without), and the sum of a
  list of numbers as \<open>reduce\<close> computes it: from the left, starting at 0.
\<close>

definition partWidth :: "'n::zero StructuredTextPart \<Rightarrow> 'n" where
  "partWidth p = (case width p of None \<Rightarrow> 0 | Some w \<Rightarrow> w)"

definition sumLeft :: "'n::{zero,plus} list \<Rightarrow> 'n" where
  "sumLeft ws = foldl (+) 0 ws"

lemma sumLeft_Nil [simp]: "sumLeft [] = 0"
  by (simp add: sumLeft_def)

lemma sumLeft_snoc [simp]: "sumLeft (ws @ [w]) = sumLeft ws + w"
  by (simp add: sumLeft_def)

lemma structuredTextWidth_result:
  "structuredTextWidth this m st ctx = (st', w, ctx')
   \<Longrightarrow> st' = map (measured this m) st \<and> w = sumLeft (map (partWidth \<circ> measured this m) st)"
proof -
  assume a: "structuredTextWidth this m st ctx = (st', w, ctx')"
  have eq: "\<And>p. the (width (measured this m p)) = partWidth (measured this m p)"
    by (simp add: measured_def partWidth_def split: option.splits)
  have "st' = map (measured this m) st"
    using structuredTextWidth_parts [of this m st ctx] a by simp
  moreover have "w = sumLeft (map (partWidth \<circ> measured this m) st)"
    using structuredTextWidth_sum [of this m st ctx] a
    by (simp add: sumLeft_def eq comp_def)
  ultimately show ?thesis by simp
qed

lemma measured_idem [simp]: "measured this m (measured this m p) = measured this m p"
  by (simp add: measured_def split: option.splits)

lemma measured_text [simp]: "text (measured this m p) = text p"
  by (simp add: measured_def split: option.splits)

lemma measured_width_Some: "width (measured this m p) \<noteq> None"
  by (simp add: measured_def split: option.splits)

subsection \<open>The three policies\<close>

text \<open>Clip: \<open>_parseStructuredTextLine\<close>.\<close>

definition parseStructuredTextLine ::
  "'n::{zero,plus,ord} TextBlock \<Rightarrow> (jsstring \<Rightarrow> jsstring \<Rightarrow> 'n) \<Rightarrow> 'n StructuredTextPart list \<Rightarrow>
   CanvasContext \<Rightarrow> 'n StructuredTextLine \<times> CanvasContext" where
  "parseStructuredTextLine this measureText line context =
     (case structuredTextWidth this measureText line context of
        (line', w, context') \<Rightarrow> (\<lparr>parts = line', lineWidth = w\<rparr>, context'))"

text \<open>The ellipsis marker, the single character U+2026.\<close>

definition ellipsisMarker :: jsstring where
  "ellipsisMarker = [8230]"

text \<open>
  The inner loop of \<open>_parseStructuredTextLineEllipsis\<close>. \<open>_part\<close> is the last part of
  \<open>line\<close>; its text and width are updated in the line.
\<close>

function ellipsisChars ::
  "'n::{zero,plus,ord} TextBlock \<Rightarrow> (jsstring \<Rightarrow> jsstring \<Rightarrow> 'n) \<Rightarrow> 'n \<Rightarrow> jsstring \<Rightarrow>
   'n StructuredTextPart list \<times> 'n \<times> CanvasContext \<Rightarrow>
   'n StructuredTextPart list \<times> 'n \<times> CanvasContext" where
  "ellipsisChars this measureText maxWidth characters (line, lineW, context) =
     (if characters \<noteq> [] \<and> lineW > maxWidth then
        ellipsisChars this measureText maxWidth (butlast characters)
          (structuredTextWidth this measureText
             (butlast line @ [(last line)\<lparr>text := butlast characters @ ellipsisMarker,
                                           width := None\<rparr>])
             context)
      else (line, lineW, context))"
  by pat_completeness auto
termination
  by (relation "measure (\<lambda>(this, m, maxWidth, characters, state). length characters)") simp_all

declare ellipsisChars.simps [simp del]

lemma ellipsisChars_length:
  "line \<noteq> [] \<Longrightarrow>
   length (fst (ellipsisChars this m maxWidth characters (line, lineW, ctx))) = length line"
proof (induction "length characters" arbitrary: characters line lineW ctx)
  case 0
  then show ?case by (simp add: ellipsisChars.simps)
next
  case (Suc n)
  show ?case
  proof (cases "lineW > maxWidth")
    case False
    then show ?thesis by (simp add: ellipsisChars.simps)
  next
    case True
    let ?l = "butlast line @ [(last line)\<lparr>text := butlast characters @ ellipsisMarker,
                                          width := None\<rparr>]"
    obtain l' w' c' where s: "structuredTextWidth this m ?l ctx = (l', w', c')"
      by (cases "structuredTextWidth this m ?l ctx") auto
    have len: "length l' = length line"
      using structuredTextWidth_parts [of this m ?l ctx] s Suc.prems by simp
    then have ne: "l' \<noteq> []" using Suc.prems by auto
    have ch: "characters \<noteq> []" using Suc.hyps(2) by auto
    have n: "n = length (butlast characters)" using Suc.hyps(2) by simp
    show ?thesis
      using Suc.hyps(1) [OF n ne, of w' c'] True ch s len
      by (simp add: ellipsisChars.simps [of this m maxWidth characters])
  qed
qed

text \<open>The outer loop of \<open>_parseStructuredTextLineEllipsis\<close>.\<close>

function ellipsisLoop ::
  "'n::{zero,plus,ord} TextBlock \<Rightarrow> (jsstring \<Rightarrow> jsstring \<Rightarrow> 'n) \<Rightarrow> 'n \<Rightarrow>
   'n StructuredTextPart list \<times> 'n \<times> CanvasContext \<Rightarrow>
   'n StructuredTextPart list \<times> 'n \<times> CanvasContext" where
  "ellipsisLoop this measureText maxWidth (line, lineW, context) =
     (if line \<noteq> [] \<and> lineW > maxWidth then
        (case ellipsisChars this measureText maxWidth (text (last line)) (line, lineW, context) of
           (line1, lineW1, context1) \<Rightarrow>
             ellipsisLoop this measureText maxWidth
               (if lineW1 > maxWidth then butlast line1 else line1, lineW1, context1))
      else (line, lineW, context))"
  by pat_completeness auto
termination
proof (relation "measure (\<lambda>(this, m, maxWidth, line, lineW, context).
         2 * length line + (if lineW > maxWidth then 1 else 0))")
  show "wf (measure (\<lambda>(this, m, maxWidth, line, lineW, context).
         2 * length line + (if lineW > maxWidth then 1 else 0)))"
    by simp
next
  fix blk :: "'n::{zero,plus,ord} TextBlock" and measureText :: "jsstring \<Rightarrow> jsstring \<Rightarrow> 'n"
    and maxWidth lineW lineW1 :: 'n and line line1 :: "'n StructuredTextPart list"
    and ctx ctx1 :: CanvasContext
    and y :: "'n \<times> CanvasContext"
  assume c: "line \<noteq> [] \<and> maxWidth < lineW"
    and l: "(line1, y) = ellipsisChars blk measureText maxWidth (text (last line)) (line, lineW, ctx)"
    and y: "(lineW1, ctx1) = y"
  have "length line1 = length line"
    using ellipsisChars_length [of line blk measureText maxWidth "text (last line)" lineW ctx]
      c l by (metis fst_conv)
  then show "((blk, measureText, maxWidth,
               if maxWidth < lineW1 then butlast line1 else line1, lineW1, ctx1),
              blk, measureText, maxWidth, line, lineW, ctx)
             \<in> measure (\<lambda>(blk, m, maxWidth, line, lineW, ctx).
                  2 * length line + (if lineW > maxWidth then 1 else 0))"
    using c by auto
qed

declare ellipsisLoop.simps [simp del]

definition parseStructuredTextLineEllipsis ::
  "'n::{zero,plus,ord} TextBlock \<Rightarrow> (jsstring \<Rightarrow> jsstring \<Rightarrow> 'n) \<Rightarrow> 'n StructuredTextPart list \<Rightarrow> 'n \<Rightarrow>
   CanvasContext \<Rightarrow> 'n StructuredTextLine \<times> CanvasContext" where
  "parseStructuredTextLineEllipsis this measureText line maxWidth context =
     (case ellipsisLoop this measureText maxWidth
             (structuredTextWidth this measureText line context) of
        (line', lineW, context') \<Rightarrow> (\<lparr>parts = line', lineWidth = lineW\<rparr>, context'))"

text \<open>\<open>String.prototype.trimStart\<close>: white space and line terminators are removed.\<close>

definition isWhiteSpace :: "nat \<Rightarrow> bool" where
  "isWhiteSpace c \<longleftrightarrow>
     c \<in> {9, 10, 11, 12, 13, 32, 160, 5760, 8232, 8233, 8239, 8287, 12288, 65279}
     \<or> (8192 \<le> c \<and> c \<le> 8202)"

definition trimStart :: "jsstring \<Rightarrow> jsstring" where
  "trimStart s = dropWhile isWhiteSpace s"

text \<open>
  WordWrap, first loop: every part is split into words; a word is a copy of its part
  (\<open>Object.assign\<close>, the cached width included) with the word as its text.
\<close>

definition splitWords ::
  "'n::{zero,plus,ord} TextBlock \<Rightarrow> 'n StructuredTextPart list \<Rightarrow> 'n StructuredTextPart list" where
  "splitWords this line =
     (let splitter = (case wordSplittingFunction this of
                        Some f \<Rightarrow> f | None \<Rightarrow> defaultWordSplittingFunction)
      in concat (map (\<lambda>part. map (\<lambda>wordText. part\<lparr>text := wordText\<rparr>)
                                    (splitter (text part))) line))"

text \<open>
  WordWrap, second loop. The state is \<open>lines\<close>, \<open>testLine\<close>, \<open>testWidth\<close> and the context;
  \<open>lastTestWidth\<close> is the value of \<open>testWidth\<close> at the start of the iteration. The
  parameter \<open>fuseParts\<close> is what is applied to a test line when it becomes a line: the
  source applies \<open>_fuseStructuredTextParts\<close>.
\<close>

fun wordWrapLoop ::
  "('n::{zero,plus,ord} StructuredTextPart list \<Rightarrow> 'n StructuredTextPart list) \<Rightarrow>
   'n TextBlock \<Rightarrow> (jsstring \<Rightarrow> jsstring \<Rightarrow> 'n) \<Rightarrow> 'n \<Rightarrow>
   'n StructuredTextPart list \<Rightarrow>
   'n StructuredTextLine list \<times> 'n StructuredTextPart list \<times> 'n \<times> CanvasContext \<Rightarrow>
   'n StructuredTextLine list \<times> 'n StructuredTextPart list \<times> 'n \<times> CanvasContext" where
  "wordWrapLoop fuseParts this measureText maxWidth [] state = state"
| "wordWrapLoop fuseParts this measureText maxWidth (word # words)
       (lines, testLine, testWidth, context) =
     (let lastTestWidth = testWidth in
      case structuredTextWidth this measureText (testLine @ [word]) context of
        (testLine1, testWidth1, context1) \<Rightarrow>
          if testWidth1 > maxWidth \<and> length testLine1 > 1 then
            (case structuredTextWidth this measureText
                    [word\<lparr>text := trimStart (text word), width := None\<rparr>] context1 of
               (testLine2, testWidth2, context2) \<Rightarrow>
                 wordWrapLoop fuseParts this measureText maxWidth words
                   (lines @ [\<lparr>parts = fuseParts (butlast testLine1),
                               lineWidth = lastTestWidth\<rparr>],
                    testLine2, testWidth2, context2))
          else wordWrapLoop fuseParts this measureText maxWidth words
                 (lines, testLine1, testWidth1, context1))"

definition wordWrapWith ::
  "('n::{zero,plus,ord} StructuredTextPart list \<Rightarrow> 'n StructuredTextPart list) \<Rightarrow>
   'n TextBlock \<Rightarrow> (jsstring \<Rightarrow> jsstring \<Rightarrow> 'n) \<Rightarrow> 'n StructuredTextPart list \<Rightarrow> 'n \<Rightarrow>
   CanvasContext \<Rightarrow> 'n StructuredTextLine list \<times> CanvasContext" where
  "wordWrapWith fuseParts this measureText line maxWidth context =
     (case wordWrapLoop fuseParts this measureText maxWidth (splitWords this line)
             ([], [], 0, context) of
        (lines, testLine, testWidth, context') \<Rightarrow>
          (lines @ [\<lparr>parts = fuseParts testLine, lineWidth = testWidth\<rparr>], context'))"

definition parseStructuredTextLineWordWrap ::
  "'n::{zero,plus,ord} TextBlock \<Rightarrow> (jsstring \<Rightarrow> jsstring \<Rightarrow> 'n) \<Rightarrow> 'n StructuredTextPart list \<Rightarrow> 'n \<Rightarrow>
   CanvasContext \<Rightarrow> 'n StructuredTextLine list \<times> CanvasContext" where
  "parseStructuredTextLineWordWrap = wordWrapWith fuseStructuredTextParts"

subsection \<open>Line breaking\<close>

text \<open>\<open>str.split('\n')\<close>; the newline is the character 10.\<close>

fun splitNewline :: "jsstring \<Rightarrow> jsstring list" where
  "splitNewline [] = [[]]"
| "splitNewline (c # cs) =
     (if c = 10 then [] # splitNewline cs
      else (case splitNewline cs of x # xs \<Rightarrow> (c # x) # xs | [] \<Rightarrow> [[c]]))"

text \<open>
  The pre-pass of \<open>_breakStructuredTextLines\<close>. The array \<open>_lines\<close> of the source is
  \<open>finished @ [currentLine]\<close>: its last element is always the array \<open>_currentLine\<close>.
\<close>

fun pushSplitted ::
  "'n::{zero,plus,ord} StructuredTextPart \<Rightarrow> jsstring list \<Rightarrow>
   'n StructuredTextPart list list \<times> 'n StructuredTextPart list \<Rightarrow>
   'n StructuredTextPart list list \<times> 'n StructuredTextPart list" where
  "pushSplitted part [] state = state"
| "pushSplitted part (splitted # rest) (finished, currentLine) =
     pushSplitted part rest
       (finished @ [currentLine @ [part\<lparr>text := splitted\<rparr>]], [])"

fun splitLines ::
  "'n::{zero,plus,ord} StructuredTextPart list \<Rightarrow>
   'n StructuredTextPart list list \<times> 'n StructuredTextPart list \<Rightarrow>
   'n StructuredTextPart list list \<times> 'n StructuredTextPart list" where
  "splitLines [] state = state"
| "splitLines (part # rest) (finished, currentLine) =
     (if 10 \<in> set (text part) then
        splitLines rest (pushSplitted part (splitNewline (text part)) (finished, currentLine))
      else splitLines rest (finished, currentLine @ [part]))"

text \<open>The \<open>for\<close> loop over \<open>_lines\<close> of each policy; the context is passed along.\<close>

fun eachLine ::
  "('n::{zero,plus,ord} StructuredTextPart list \<Rightarrow> CanvasContext \<Rightarrow> 'n StructuredTextLine list \<times> CanvasContext) \<Rightarrow>
   'n StructuredTextPart list list \<Rightarrow> 'n StructuredTextLine list \<times> CanvasContext \<Rightarrow>
   'n StructuredTextLine list \<times> CanvasContext" where
  "eachLine policy [] state = state"
| "eachLine policy (grp # rest) (lines, context) =
     (case policy grp context of
        (new, context') \<Rightarrow> eachLine policy rest (lines @ new, context'))"

definition breakStructuredTextLines ::
  "'n::{zero,plus,ord} TextBlock \<Rightarrow> (jsstring \<Rightarrow> jsstring \<Rightarrow> 'n) \<Rightarrow> 'n \<Rightarrow> CanvasContext \<Rightarrow>
   'n StructuredTextLine list \<times> CanvasContext" where
  "breakStructuredTextLines this measureText refWidth context =
     (case splitLines (structuredText this) ([], []) of
        (finished, currentLine) \<Rightarrow>
          (let lineGroups = finished @ [currentLine] in
           case textWrapping this of
             Ellipsis \<Rightarrow>
               eachLine (\<lambda>grp c.
                   case parseStructuredTextLineEllipsis this measureText grp refWidth c of
                     (l, c') \<Rightarrow> ([l], c'))
                 lineGroups ([], context)
           | WordWrap \<Rightarrow>
               eachLine (\<lambda>grp c.
                   parseStructuredTextLineWordWrap this measureText grp refWidth c)
                 lineGroups ([], context)
           | Clip \<Rightarrow>
               eachLine (\<lambda>grp c.
                   case parseStructuredTextLine this measureText grp c of
                     (l, c') \<Rightarrow> ([l], c'))
                 lineGroups ([], context)))"

subsection \<open>Concrete data\<close>

text \<open>A part as the \<open>text\<close> setter builds it: \<open>{ text: t }\<close>, nothing overridden.\<close>

definition plainPart :: "jsstring \<Rightarrow> 'n StructuredTextPart" where
  "plainPart t =
     \<lparr>text = t, color = None, underline = None, lineThrough = None, fontStyle = None,
      fontWeight = None, outlineWidth = None, outlineColor = None, shadowColor = None,
      shadowBlur = None, shadowOffsetX = None, shadowOffsetY = None, width = None\<rparr>"

text \<open>
  A control with the field initialisers of the class (\<open>Clip\<close>, no word splitting function,
  no outline, no underline) and some values for the members of the base class.
\<close>

definition exampleBlock :: "'n::zero TextBlock" where
  "exampleBlock =
     \<lparr>structuredText = [], textWrapping = Clip, wordSplittingFunction = None,
      blockColor = ColorString (str ''white''), blockOutlineWidth = 0,
      blockOutlineColor = str ''white'', blockShadowColor = str ''black'',
      blockShadowBlur = 0, blockShadowOffsetX = 0, blockShadowOffsetY = 0,
      blockUnderline = False, blockLineThrough = False, blockStyle = None,
      blockFontStyle = str ''normal'', blockFontWeight = str ''400'',
      fontSize = str ''18px'', fontFamily = str ''Arial''\<rparr>"

definition freshContext :: CanvasContext where
  "freshContext = \<lparr>font = str ''10px sans-serif'', savedStates = [], saveCalls = 0,
                    restoreCalls = 0\<rparr>"

text \<open>
  A measurement service for examples: ten pixels for each character, in every font, in
  exact arithmetic.
\<close>

definition tenPerChar :: "jsstring \<Rightarrow> jsstring \<Rightarrow> real" where
  "tenPerChar f t = 10 * real (length t)"

subsection \<open>The doubles\<close>

text \<open>
  JavaScript numbers (IEEE 754 binary64). A finite number is \<open>Finite m e\<close>, the number
  \<open>m * 2 ^ e\<close>, kept in one form: \<open>Finite 0 0\<close> for zero, and otherwise the mantissa
  \<open>m\<close> has 53 bits and \<open>- 1074 \<le> e \<le> 971\<close>, or fewer bits and \<open>e = - 1074\<close> (a subnormal
  number). The sign of zero is not modelled.
\<close>

datatype jsnum = Finite int int | PosInfinity | NegInfinity | NaN

text \<open>The number of bits of a natural number.\<close>

fun bitLength :: "nat \<Rightarrow> int" where
  "bitLength n = (if n = 0 then 0 else 1 + bitLength (n div 2))"

declare bitLength.simps [simp del]

lemma bitLength_0 [simp]: "bitLength 0 = 0"
  by (simp add: bitLength.simps)

lemma bitLength_1 [simp]: "bitLength (Suc 0) = 1"
  by (simp add: bitLength.simps)

lemma bitLength_numeral [simp]: "bitLength (numeral k) = 1 + bitLength (numeral k div 2)"
  by (subst bitLength.simps) simp

text \<open>
  The double nearest to \<open>M * 2 ^ E\<close>, ties to the even mantissa: the exponent of the result
  is \<open>target\<close>; when it is above \<open>E\<close> the last \<open>k\<close> bits of \<open>M\<close> are rounded away. A result
  of \<open>2 ^ 1024\<close> or more is an infinity.
\<close>

definition round64 :: "int \<Rightarrow> int \<Rightarrow> jsnum" where
  "round64 M E =
     (if M = 0 then Finite 0 0
      else
        (let target = max (E + bitLength (nat \<bar>M\<bar>) - 53) (- 1074);
             k = nat (target - E);
             q = \<bar>M\<bar> div 2 ^ k;
             r = \<bar>M\<bar> mod 2 ^ k;
             q1 = (if target \<le> E then \<bar>M\<bar> * 2 ^ nat (E - target)
                   else if 2 ^ k < 2 * r \<or> (2 * r = 2 ^ k \<and> odd q) then q + 1 else q);
             q2 = (if q1 = 2 ^ 53 then 2 ^ 52 else q1);
             e2 = (if q1 = 2 ^ 53 then target + 1 else target)
         in if 971 < e2 then (if 0 < M then PosInfinity else NegInfinity)
            else if q2 = 0 then Finite 0 0
            else Finite (sgn M * q2) e2))"

text \<open>The double nearest to an integer.\<close>

definition jsInt :: "int \<Rightarrow> jsnum" where
  "jsInt i = round64 i 0"

instantiation jsnum :: "{zero,plus,ord}"
begin

definition zero_jsnum :: jsnum where
  "zero_jsnum = Finite 0 0"

fun plus_jsnum :: "jsnum \<Rightarrow> jsnum \<Rightarrow> jsnum" where
  "plus_jsnum (Finite m1 e1) (Finite m2 e2) =
     round64 (m1 * 2 ^ nat (e1 - min e1 e2) + m2 * 2 ^ nat (e2 - min e1 e2)) (min e1 e2)"
| "plus_jsnum NaN y = NaN"
| "plus_jsnum x NaN = NaN"
| "plus_jsnum PosInfinity NegInfinity = NaN"
| "plus_jsnum NegInfinity PosInfinity = NaN"
| "plus_jsnum PosInfinity y = PosInfinity"
| "plus_jsnum x PosInfinity = PosInfinity"
| "plus_jsnum NegInfinity y = NegInfinity"
| "plus_jsnum x NegInfinity = NegInfinity"

fun less_jsnum :: "jsnum \<Rightarrow> jsnum \<Rightarrow> bool" where
  "less_jsnum (Finite m1 e1) (Finite m2 e2) =
     (m1 * 2 ^ nat (e1 - min e1 e2) < m2 * 2 ^ nat (e2 - min e1 e2))"
| "less_jsnum NaN y = False"
| "less_jsnum x NaN = False"
| "less_jsnum x NegInfinity = False"
| "less_jsnum PosInfinity y = False"
| "less_jsnum NegInfinity y = True"
| "less_jsnum x PosInfinity = True"

fun less_eq_jsnum :: "jsnum \<Rightarrow> jsnum \<Rightarrow> bool" where
  "less_eq_jsnum (Finite m1 e1) (Finite m2 e2) =
     (m1 * 2 ^ nat (e1 - min e1 e2) \<le> m2 * 2 ^ nat (e2 - min e1 e2))"
| "less_eq_jsnum NaN y = False"
| "less_eq_jsnum x NaN = False"
| "less_eq_jsnum NegInfinity y = True"
| "less_eq_jsnum x PosInfinity = True"
| "less_eq_jsnum x NegInfinity = False"
| "less_eq_jsnum PosInfinity y = False"

instance ..

end

text \<open>\<open>Number.isFinite\<close>.\<close>

fun isFinite :: "jsnum \<Rightarrow> bool" where
  "isFinite (Finite m e) = True"
| "isFinite x = False"


text \<open>
  Two measurement services on the doubles: NaN for every text, and ten pixels for each
  character.
\<close>

definition nanService :: "jsstring \<Rightarrow> jsstring \<Rightarrow> jsnum" where
  "nanService f t = NaN"

definition tenPerCharDouble :: "jsstring \<Rightarrow> jsstring \<Rightarrow> jsnum" where
  "tenPerCharDouble f t = jsInt (10 * int (length t))"

subsection \<open>Notions used in the properties\<close>

text \<open>
  The width a part has after the adapter visited it: the cached width, or else the result
  of the measurement service for the part's text in the part's font.
\<close>

definition storedWidth ::
  "'n TextBlock \<Rightarrow> (jsstring \<Rightarrow> jsstring \<Rightarrow> 'n) \<Rightarrow> 'n StructuredTextPart \<Rightarrow> 'n" where
  "storedWidth this measureText part =
     (case width part of None \<Rightarrow> measureText (partFont this part) (text part) | Some w \<Rightarrow> w)"

text \<open>The context after a call of the width adapter.\<close>

definition widthContext ::
  "'n::{zero,plus} TextBlock \<Rightarrow> (jsstring \<Rightarrow> jsstring \<Rightarrow> 'n) \<Rightarrow> 'n StructuredTextPart list \<Rightarrow>
   CanvasContext \<Rightarrow> CanvasContext" where
  "widthContext this m st ctx = snd (snd (structuredTextWidth this m st ctx))"

text \<open>A token of the default splitter: not empty, spaces first, then no space any more.\<close>

definition spacesThenWord :: "jsstring \<Rightarrow> bool" where
  "spacesThenWord t \<longleftrightarrow> t \<noteq> [] \<and> 32 \<notin> set (dropWhile (\<lambda>c. c = 32) t)"

text \<open>
  Two runs merged by fusion: the text of the second is appended to the first and the
  widths are added (\<open>||\<close> on each); the other fields are those of the first run.
\<close>

definition mergeParts ::
  "'n::{zero,plus,ord} StructuredTextPart \<Rightarrow> 'n StructuredTextPart \<Rightarrow> 'n StructuredTextPart" where
  "mergeParts a r = a\<lparr>text := text a @ text r,
                       width := Some (orZero (width a) + orZero (width r))\<rparr>"



text \<open>
  The word that starts a new line in WordWrap: left-trimmed, its width deleted.
\<close>

definition trimmedWord :: "'n StructuredTextPart \<Rightarrow> 'n StructuredTextPart" where
  "trimmedWord word = word\<lparr>text := trimStart (text word), width := None\<rparr>"

text \<open>
  A token of a line stands for a word of the token stream: it is the word after measuring,
  or the left-trimmed word after measuring.
\<close>

definition placed ::
  "'n TextBlock \<Rightarrow> (jsstring \<Rightarrow> jsstring \<Rightarrow> 'n) \<Rightarrow> 'n StructuredTextPart \<Rightarrow> 'n StructuredTextPart \<Rightarrow> bool" where
  "placed this measureText word token \<longleftrightarrow>
     token = measured this measureText word
     \<or> token = measured this measureText (trimmedWord word)"

text \<open>
  Two numbers that no comparison relates: neither \<open>a \<le> b\<close> nor \<open>b < a\<close>. On the doubles
  this is the case when one of them is NaN, and only then.
\<close>

definition incomparable :: "'n::ord \<Rightarrow> 'n \<Rightarrow> bool" where
  "incomparable a b \<longleftrightarrow> \<not> (a \<le> b \<or> b < a)"

text \<open>
  A line of WordWrap fits; or its width is not comparable with the target; or it consists
  of a single token, and its width is that of the token (added to 0); or it has no token
  and width 0.
\<close>

definition wrapFit :: "'n::{zero,plus,ord} \<Rightarrow> 'n StructuredTextLine \<Rightarrow> bool" where
  "wrapFit maxWidth l \<longleftrightarrow>
     lineWidth l \<le> maxWidth
     \<or> incomparable (lineWidth l) maxWidth
     \<or> (length (parts l) = 1 \<and> lineWidth l = 0 + partWidth (hd (parts l)))
     \<or> (parts l = [] \<and> lineWidth l = 0)"

text \<open>A line with a function applied to its parts.\<close>

definition withParts ::
  "('n StructuredTextPart list \<Rightarrow> 'n StructuredTextPart list) \<Rightarrow> 'n StructuredTextLine \<Rightarrow> 'n StructuredTextLine" where
  "withParts f l = l\<lparr>parts := f (parts l)\<rparr>"

text \<open>
  What the ellipsis policy is given by a coherent caller: the measurement service gives 0
  for the empty text, and a run with empty text carries no cached width other than 0.
  (And 0 + 0 is 0, as on the doubles.)
\<close>

definition coherentEmptyRuns ::
  "(jsstring \<Rightarrow> jsstring \<Rightarrow> 'n::{zero,plus}) \<Rightarrow> 'n StructuredTextPart list \<Rightarrow> bool" where
  "coherentEmptyRuns measureText line \<longleftrightarrow>
     (0::'n) + 0 = 0
     \<and> (\<forall>f. measureText f [] = 0)
     \<and> (\<forall>p\<in>set line. text p = [] \<longrightarrow> width p = None \<or> width p = Some 0)"

text \<open>A token carries its own measured width: that of its text in its font.\<close>

definition selfMeasured ::
  "'n TextBlock \<Rightarrow> (jsstring \<Rightarrow> jsstring \<Rightarrow> 'n) \<Rightarrow> 'n StructuredTextPart \<Rightarrow> bool" where
  "selfMeasured this measureText t \<longleftrightarrow>
     width t = Some (measureText (partFont this t) (text t))"

subsection \<open>Loop invariants\<close>

text \<open>
  The invariant of the loop of the default word splitter: the tokens pushed so far make up
  the text before \<open>lastIndex\<close>, the text from \<open>lastIndex\<close> to the expression's index is
  the run of spaces of the last match, and the character after that run is not a space.
\<close>

definition splitInv :: "jsstring \<Rightarrow> nat \<Rightarrow> nat \<Rightarrow> jsstring list \<Rightarrow> bool" where
  "splitInv s re li sp \<longleftrightarrow>
     li \<le> re \<and> re \<le> length s \<and> concat sp = take li s
     \<and> (\<forall>k. li \<le> k \<and> k < re \<longrightarrow> s ! k = 32)
     \<and> (re = 0 \<or> (li < re \<and> (re < length s \<longrightarrow> s ! re \<noteq> 32)))
     \<and> (sp \<noteq> [] \<longrightarrow> re \<noteq> 0)
     \<and> list_all spacesThenWord sp
     \<and> list_all (\<lambda>t. hd t = 32) (tl sp)
     \<and> list_all (\<lambda>t. last t \<noteq> 32) sp"

text \<open>
  The invariant of the second loop of WordWrap, for the words \<open>ds\<close> consumed so far: the
  tokens of the lines and of the test line stand for these words, in order; the test line
  is measured, \<open>testWidth\<close> is its width, and the test \<open>testWidth > width\<close> is false unless
  the test line is a single token.
\<close>

definition wrapInv ::
  "'n::{zero,plus,ord} TextBlock \<Rightarrow> (jsstring \<Rightarrow> jsstring \<Rightarrow> 'n) \<Rightarrow> 'n \<Rightarrow> 'n StructuredTextPart list \<Rightarrow>
   'n StructuredTextLine list \<times> 'n StructuredTextPart list \<times> 'n \<times> CanvasContext \<Rightarrow> bool" where
  "wrapInv this m W ds state \<longleftrightarrow>
     (case state of (ls, cur, cw, ctx) \<Rightarrow>
        list_all2 (placed this m) ds (concat (map parts ls) @ cur)
        \<and> map (measured this m) cur = cur
        \<and> cw = sumLeft (map partWidth cur)
        \<and> (\<not> W < cw \<or> length cur \<le> 1)
        \<and> list_all (wrapFit W) ls
        \<and> list_all (\<lambda>l. parts l \<noteq> []) ls
        \<and> (ds \<noteq> [] \<longrightarrow> cur \<noteq> []))"

text \<open>
  The invariant of the loops of the ellipsis policy, for the set \<open>F\<close> of the fonts of the
  group: the line is measured, its runs with empty text have width 0, and \<open>lineWidth\<close> is
  the width of the line, or it is above the target and it is the width the line had
  before its last runs were dropped: runs of width 0 and possibly, last, a run reduced to
  the marker.
\<close>

definition ellInv ::
  "'n::{zero,plus,ord} TextBlock \<Rightarrow> (jsstring \<Rightarrow> jsstring \<Rightarrow> 'n) \<Rightarrow> jsstring set \<Rightarrow> 'n \<Rightarrow>
   'n StructuredTextPart list \<Rightarrow> 'n \<Rightarrow> bool" where
  "ellInv this m F W line lw \<longleftrightarrow>
     map (measured this m) line = line
     \<and> partFont this ` set line \<subseteq> F
     \<and> (\<forall>p\<in>set line. text p = [] \<longrightarrow> partWidth p = 0)
     \<and> (lw = sumLeft (map partWidth line)
        \<or> (W < lw
           \<and> (\<exists>j. lw = sumLeft (map partWidth line @ replicate j 0)
                  \<or> (\<exists>f\<in>F. lw = sumLeft (map partWidth line @ replicate j 0
                                            @ [m f ellipsisMarker])))))"

section \<open>Properties\<close>

subsection \<open>Whole numbers on the doubles\<close>

text \<open>
  The whole numbers from 0 to \<open>2 ^ 53\<close> are doubles, and on them the addition and the
  comparisons of the doubles are those of the integers, as long as the sum stays below
  \<open>2 ^ 53\<close>.
\<close>

lemma bitLength_bitlen: "bitLength n = bitlen (int n)"
proof (induction n rule: bitLength.induct)
  case (1 n)
  show ?case
  proof (cases "n = 0")
    case True
    then show ?thesis by simp
  next
    case False
    have "bitLength n = 1 + bitLength (n div 2)"
      using False by (subst bitLength.simps) simp
    also have "\<dots> = 1 + bitlen (int (n div 2))" using "1.IH" [OF False] by simp
    also have "\<dots> = bitlen (int n)"
      using False by (subst (2) compute_bitlen) (simp add: zdiv_int)
    finally show ?thesis .
  qed
qed

lemma bitlen_mono: "a \<le> b \<Longrightarrow> bitlen a \<le> bitlen b"
  by (simp add: bitlen_def floorlog_mono)

lemma bitlen_le_53: "0 < a \<Longrightarrow> a < 2 ^ 53 \<Longrightarrow> 1 \<le> bitlen a \<and> bitlen a \<le> 53"
proof -
  assume a: "0 < a" "a < (2::int) ^ 53"
  have b: "2 ^ nat (bitlen a - 1) \<le> a" using bitlen_bounds [OF a(1)] by simp
  have b1: "1 \<le> bitlen a" using a(1) by (simp add: bitlen_alt_def)
  have "bitlen a \<le> 53"
  proof (rule ccontr)
    assume "\<not> bitlen a \<le> 53"
    then have "53 \<le> nat (bitlen a - 1)" by simp
    then have "(2::int) ^ 53 \<le> 2 ^ nat (bitlen a - 1)" by (intro power_increasing) simp_all
    then show False using b a(2) by simp
  qed
  then show ?thesis using b1 by simp
qed

lemma round64_exact:
  assumes c: "0 < c" "c < 2 ^ 53" and e: "e \<le> bitlen c - 53"
  shows "round64 (c * 2 ^ nat (- e)) e = Finite (c * 2 ^ nat (53 - bitlen c)) (bitlen c - 53)"
proof -
  let ?t = "bitlen c - 53"
  let ?M = "c * 2 ^ nat (- e)"
  have bl: "1 \<le> bitlen c" "bitlen c \<le> 53" using bitlen_le_53 [OF c] by simp_all
  have e0: "e \<le> 0" using e bl by simp
  have Mpos: "0 < ?M" using c(1) by simp
  have blM: "bitLength (nat \<bar>?M\<bar>) = bitlen c - e"
    using Mpos e0 c(1) by (simp add: bitLength_bitlen)
  have target: "max (e + bitLength (nat \<bar>?M\<bar>) - 53) (- 1074) = ?t"
    using bl by (simp add: blM max_def)
  have up: "c * 2 ^ nat (53 - bitlen c) < 2 ^ 53"
  proof -
    have "c < 2 ^ nat (bitlen c)" using bitlen_bounds [OF c(1)] by simp
    then have "c * 2 ^ nat (53 - bitlen c) < 2 ^ nat (bitlen c) * 2 ^ nat (53 - bitlen c)"
      by simp
    also have "\<dots> = 2 ^ (nat (bitlen c) + nat (53 - bitlen c))" by (simp add: power_add)
    also have "nat (bitlen c) + nat (53 - bitlen c) = 53" using bl by simp
    finally show ?thesis .
  qed
  have split: "?M = (c * 2 ^ nat (53 - bitlen c)) * 2 ^ nat (?t - e)"
  proof -
    have "nat (- e) = nat (53 - bitlen c) + nat (?t - e)" using e bl by simp
    then show ?thesis by (simp add: power_add)
  qed
  show ?thesis
  proof (cases "?t \<le> e")
    case True
    then have "e = ?t" using e by simp
    then have m: "?M = c * 2 ^ nat (53 - bitlen c)" by simp
    show ?thesis
      unfolding round64_def Let_def target
      using Mpos True up \<open>e = ?t\<close> bl c(1) by (simp add: m)
  next
    case False
    have "\<bar>?M\<bar> = ?M" using Mpos by (simp only: abs_of_pos)
    then have absM: "\<bar>?M\<bar> = (c * 2 ^ nat (53 - bitlen c)) * 2 ^ nat (?t - e)"
      using split by (simp only:)
    have d: "\<bar>?M\<bar> div 2 ^ nat (?t - e) = c * 2 ^ nat (53 - bitlen c)"
      unfolding absM by simp
    have r: "\<bar>?M\<bar> mod 2 ^ nat (?t - e) = 0"
      unfolding absM by simp
    show ?thesis
      unfolding round64_def Let_def target d r
      using Mpos False up bl c(1) by simp
  qed
qed

lemma jsInt_pos:
  assumes "0 < a" and "a < 2 ^ 53"
  shows "jsInt a = Finite (a * 2 ^ nat (53 - bitlen a)) (bitlen a - 53)"
proof -
  have bl: "1 \<le> bitlen a" "bitlen a \<le> 53" using bitlen_le_53 [OF assms] by simp_all
  have up: "a * 2 ^ nat (53 - bitlen a) < 2 ^ 53"
  proof -
    have "a < 2 ^ nat (bitlen a)" using bitlen_bounds [OF assms(1)] by simp
    then have "a * 2 ^ nat (53 - bitlen a) < 2 ^ nat (bitlen a) * 2 ^ nat (53 - bitlen a)"
      by simp
    also have "\<dots> = 2 ^ (nat (bitlen a) + nat (53 - bitlen a))" by (simp add: power_add)
    also have "nat (bitlen a) + nat (53 - bitlen a) = 53" using bl by simp
    finally show ?thesis .
  qed
  show ?thesis
    using assms bl up
    by (simp add: jsInt_def round64_def Let_def bitLength_bitlen max_def)
qed

lemma jsInt_0: "jsInt 0 = 0"
  by (simp add: jsInt_def round64_def zero_jsnum_def)

text \<open>The form of a whole number as a double.\<close>

lemma jsInt_form:
  assumes "0 \<le> a" and "a < 2 ^ 53"
  shows "\<exists>e. e \<le> 0 \<and> (0 < a \<longrightarrow> e = bitlen a - 53) \<and> jsInt a = Finite (a * 2 ^ nat (- e)) e"
proof (cases "a = 0")
  case True
  then show ?thesis using jsInt_0 by (auto simp: zero_jsnum_def)
next
  case False
  then have p: "0 < a" using assms(1) by simp
  have bl: "1 \<le> bitlen a" "bitlen a \<le> 53" using bitlen_le_53 [OF p assms(2)] by simp_all
  have "jsInt a = Finite (a * 2 ^ nat (53 - bitlen a)) (bitlen a - 53)"
    using p assms(2) by (rule jsInt_pos)
  moreover have "nat (53 - bitlen a) = nat (- (bitlen a - 53))" by simp
  ultimately have "jsInt a = Finite (a * 2 ^ nat (- (bitlen a - 53))) (bitlen a - 53)"
    by (simp only:)
  then show ?thesis using bl by (intro exI [of _ "bitlen a - 53"]) simp
qed

lemma scale_to_min:
  "e \<le> (0::int) \<Longrightarrow> d \<le> e \<Longrightarrow> (a::int) * 2 ^ nat (- e) * 2 ^ nat (e - d) = a * 2 ^ nat (- d)"
proof -
  assume "e \<le> 0" and "d \<le> e"
  then have "nat (- d) = nat (- e) + nat (e - d)" by simp
  then show ?thesis by (simp add: power_add)
qed

lemma jsInt_less_iff:
  assumes "0 \<le> a" "a < 2 ^ 53" "0 \<le> b" "b < 2 ^ 53"
  shows "jsInt a < jsInt b \<longleftrightarrow> a < b"
proof -
  obtain ea where ea: "ea \<le> 0" "jsInt a = Finite (a * 2 ^ nat (- ea)) ea"
    using jsInt_form [OF assms(1,2)] by blast
  obtain eb where eb: "eb \<le> 0" "jsInt b = Finite (b * 2 ^ nat (- eb)) eb"
    using jsInt_form [OF assms(3,4)] by blast
  have A: "a * 2 ^ nat (- ea) * 2 ^ nat (ea - min ea eb) = a * 2 ^ nat (- min ea eb)"
    using ea(1) by (intro scale_to_min) simp_all
  have B: "b * 2 ^ nat (- eb) * 2 ^ nat (eb - min ea eb) = b * 2 ^ nat (- min ea eb)"
    using eb(1) by (intro scale_to_min) simp_all
  show ?thesis unfolding ea(2) eb(2) less_jsnum.simps A B by simp
qed

lemma jsInt_le_iff:
  assumes "0 \<le> a" "a < 2 ^ 53" "0 \<le> b" "b < 2 ^ 53"
  shows "jsInt a \<le> jsInt b \<longleftrightarrow> a \<le> b"
proof -
  obtain ea where ea: "ea \<le> 0" "jsInt a = Finite (a * 2 ^ nat (- ea)) ea"
    using jsInt_form [OF assms(1,2)] by blast
  obtain eb where eb: "eb \<le> 0" "jsInt b = Finite (b * 2 ^ nat (- eb)) eb"
    using jsInt_form [OF assms(3,4)] by blast
  have A: "a * 2 ^ nat (- ea) * 2 ^ nat (ea - min ea eb) = a * 2 ^ nat (- min ea eb)"
    using ea(1) by (intro scale_to_min) simp_all
  have B: "b * 2 ^ nat (- eb) * 2 ^ nat (eb - min ea eb) = b * 2 ^ nat (- min ea eb)"
    using eb(1) by (intro scale_to_min) simp_all
  show ?thesis unfolding ea(2) eb(2) less_eq_jsnum.simps A B by simp
qed

lemma jsInt_add:
  assumes "0 \<le> a" and "0 \<le> b" and "a + b < 2 ^ 53"
  shows "jsInt a + jsInt b = jsInt (a + b)"
proof -
  have a53: "a < 2 ^ 53" and b53: "b < 2 ^ 53" using assms by simp_all
  obtain ea where ea: "ea \<le> 0" "0 < a \<longrightarrow> ea = bitlen a - 53"
      "jsInt a = Finite (a * 2 ^ nat (- ea)) ea"
    using jsInt_form [OF assms(1) a53] by blast
  obtain eb where eb: "eb \<le> 0" "0 < b \<longrightarrow> eb = bitlen b - 53"
      "jsInt b = Finite (b * 2 ^ nat (- eb)) eb"
    using jsInt_form [OF assms(2) b53] by blast
  let ?e = "min ea eb"
  have A: "a * 2 ^ nat (- ea) * 2 ^ nat (ea - ?e) = a * 2 ^ nat (- ?e)"
    using ea(1) by (intro scale_to_min) simp_all
  have B: "b * 2 ^ nat (- eb) * 2 ^ nat (eb - ?e) = b * 2 ^ nat (- ?e)"
    using eb(1) by (intro scale_to_min) simp_all
  have M: "a * 2 ^ nat (- ea) * 2 ^ nat (ea - ?e) + b * 2 ^ nat (- eb) * 2 ^ nat (eb - ?e)
      = (a + b) * 2 ^ nat (- ?e)"
    by (simp only: A B distrib_right)
  have sum: "jsInt a + jsInt b = round64 ((a + b) * 2 ^ nat (- ?e)) ?e"
    unfolding ea(3) eb(3) plus_jsnum.simps M ..
  show ?thesis
  proof (cases "a + b = 0")
    case True
    then show ?thesis unfolding sum by (simp add: round64_def jsInt_def)
  next
    case False
    then have c: "0 < a + b" using assms by simp
    have le: "?e \<le> bitlen (a + b) - 53"
    proof (cases "0 < a")
      case True
      then show ?thesis using ea(2) bitlen_mono [of a "a + b"] assms(2) by simp
    next
      case False
      then have "0 < b" using c assms(1) by simp
      then show ?thesis using eb(2) bitlen_mono [of b "a + b"] assms(1) by simp
    qed
    have "jsInt (a + b) = Finite ((a + b) * 2 ^ nat (53 - bitlen (a + b))) (bitlen (a + b) - 53)"
      using c assms(3) by (rule jsInt_pos)
    then show ?thesis unfolding sum using round64_exact [OF c assms(3) le] by simp
  qed
qed

subsection \<open>Normal form of the width adapter\<close>

lemma structuredTextWidth_eq:
  "structuredTextWidth this m st ctx =
     (map (measured this m) st, sumLeft (map (partWidth \<circ> measured this m) st),
      widthContext this m st ctx)"
  using structuredTextWidth_result [of this m st ctx]
  by (cases "structuredTextWidth this m st ctx") (simp add: widthContext_def)

lemma ellipsisLoop_Nil [simp]: "ellipsisLoop this m w ([], lw, ctx) = ([], lw, ctx)"
  by (simp add: ellipsisLoop.simps)

lemma fuse_Nil [simp]: "fuseStructuredTextParts [] = []"
  by (simp add: fuseStructuredTextParts_def)

lemma fuse_single [simp]: "fuseStructuredTextParts [p] = [p]"
  by (simp add: fuseStructuredTextParts_def)

lemma splitWords_Nil [simp]: "splitWords this [] = []"
  by (simp add: splitWords_def)

lemma regexpExec_no_space: "32 \<notin> set s \<Longrightarrow> regexpExec s 0 = None"
  by (simp add: regexpExec_def)

lemma default_split_no_space:
  "32 \<notin> set s \<Longrightarrow> defaultWordSplittingFunction s = (if s = [] then [] else [s])"
  by (simp add: defaultWordSplittingFunction_def splitLoop.simps [of s 0] regexpExec_no_space)

subsection \<open>Line breaking of the empty input and of a text with a newline\<close>

text \<open>
  Claim C9. For the empty structured text, line breaking under each of the three
  policies (whatever the wrapping mode of the control, the measurement service and the
  reference width) produces exactly one line; the line has no part and its width is 0.
\<close>

theorem empty_input_one_empty_line:
  "fst (breakStructuredTextLines (this\<lparr>structuredText := []\<rparr>) measureText refWidth ctx)
     = [\<lparr>parts = [], lineWidth = 0\<rparr>]"
  by (cases "textWrapping this")
     (simp_all add: breakStructuredTextLines_def parseStructuredTextLine_def
        parseStructuredTextLineEllipsis_def parseStructuredTextLineWordWrap_def
        wordWrapWith_def structuredTextWidth_eq)

text \<open>
  Claim C1. The claim says that the single run \<open>hello\<newline>world\<close> gives exactly two
  lines under every mode. The pre-pass opens a new line group after every fragment of a
  run that contains a newline, also after the last one, so the code gives three lines
  under every mode, the third one without parts and of width 0; under Clip and WordWrap
  the texts of the lines are \<open>hello\<close>, \<open>world\<close> and nothing. (For a following run the
  same step separates it from the last fragment: \<open>a\<newline>b\<close> followed by \<open>c\<close> gives the
  groups \<open>a\<close>, \<open>b\<close> and \<open>c\<close>.)
\<close>

theorem hello_world_three_lines:
  fixes this :: "'n::{zero,plus,ord} TextBlock"
  defines "blk \<equiv> (\<lambda>mode. this\<lparr>structuredText := [plainPart (str ''hello\<newline>world'')],
                        wordSplittingFunction := None, textWrapping := mode\<rparr>)"
  shows "length (fst (breakStructuredTextLines (blk mode) measureText refWidth ctx)) = 3
    \<and> last (fst (breakStructuredTextLines (blk mode) measureText refWidth ctx))
        = \<lparr>parts = [], lineWidth = 0\<rparr>
    \<and> map (map text \<circ> parts) (fst (breakStructuredTextLines (blk Clip) measureText refWidth ctx))
        = [[str ''hello''], [str ''world''], []]
    \<and> map (map text \<circ> parts)
          (fst (breakStructuredTextLines (blk WordWrap) measureText refWidth ctx))
        = [[str ''hello''], [str ''world''], []]
    \<and> map (map text) (fst (splitLines [plainPart (str ''a\<newline>b''), plainPart (str ''c'')] ([], [])))
          @ [map text (snd (splitLines [plainPart (str ''a\<newline>b''), plainPart (str ''c'')] ([], [])))]
        = [[str ''a''], [str ''b''], [str ''c'']]"
  unfolding blk_def
  by (cases mode)
     (simp_all add: breakStructuredTextLines_def parseStructuredTextLine_def
        parseStructuredTextLineEllipsis_def parseStructuredTextLineWordWrap_def
        wordWrapWith_def str_def plainPart_def structuredTextWidth_eq splitWords_def
        default_split_no_space split: prod.splits)

subsection \<open>The width adapter: what is stored, and the calls of save and restore\<close>

lemma widthStep_context:
  "saveCalls (snd (snd (foldl (widthStep this m False) (visited, acc, ctx) st)))
     = saveCalls ctx + length (filter (\<lambda>p. width p = None) st)
   \<and> restoreCalls (snd (snd (foldl (widthStep this m False) (visited, acc, ctx) st)))
     = restoreCalls ctx
   \<and> length (savedStates (snd (snd (foldl (widthStep this m False) (visited, acc, ctx) st))))
     = length (savedStates ctx) + length (filter (\<lambda>p. width p = None) st)"
proof (induction st arbitrary: visited acc ctx)
  case Nil
  show ?case by simp
next
  case (Cons p ps)
  show ?case
    by (cases "width p")
       (simp_all add: Cons.IH Let_def setContextAttributesForMeasure_def context_save_def)
qed

text \<open>
  Claim C10. The claim says that the adapter calls \<open>save\<close> and \<open>restore\<close> equally often
  and leaves the stack of saved states at its depth. The flag \<open>contextSaved\<close> is never
  set: \<open>save\<close> is called once for every part without a cached width and \<open>restore\<close> is
  never called, so the stack grows by the number of such parts (by one for the single
  part \<open>{ text: "a" }\<close>).
\<close>

theorem save_without_restore:
  "saveCalls (widthContext this measureText st ctx)
     = saveCalls ctx + length (filter (\<lambda>p. width p = None) st)
   \<and> restoreCalls (widthContext this measureText st ctx) = restoreCalls ctx
   \<and> length (savedStates (widthContext this measureText st ctx))
     = length (savedStates ctx) + length (filter (\<lambda>p. width p = None) st)
   \<and> saveCalls (widthContext this measureText [plainPart (str ''a'')] ctx) = saveCalls ctx + 1"
proof -
  have "saveCalls (widthContext this measureText st ctx)
     = saveCalls ctx + length (filter (\<lambda>p. width p = None) st)
   \<and> restoreCalls (widthContext this measureText st ctx) = restoreCalls ctx
   \<and> length (savedStates (widthContext this measureText st ctx))
     = length (savedStates ctx) + length (filter (\<lambda>p. width p = None) st)" for st
    using widthStep_context [of this measureText "[]" 0 ctx st]
    by (simp add: widthContext_def structuredTextWidth_def split: prod.splits)
  from this [of st] this [of "[plainPart (str ''a'')]"] show ?thesis
    by (simp add: plainPart_def)
qed

text \<open>
  Claim C2, as the code has it. The adapter has no check of the measured value: for a
  part without a cached width it stores exactly what the measurement service returns,
  and it returns the sum, from the left and starting at 0, of the stored widths. This
  holds for every number type, the non-finite values included.
\<close>

theorem width_adapter_stores_measurement:
  "fst (structuredTextWidth this measureText st ctx)
     = map (\<lambda>p. p\<lparr>width := Some (storedWidth this measureText p)\<rparr>) st
   \<and> fst (snd (structuredTextWidth this measureText st ctx))
     = foldl (+) 0 (map (storedWidth this measureText) st)"
proof -
  have a: "measured this measureText = (\<lambda>p. p\<lparr>width := Some (storedWidth this measureText p)\<rparr>)"
    by (rule ext) (simp add: measured_def storedWidth_def split: option.splits)
  have b: "(\<lambda>p. the (width (measured this measureText p))) = storedWidth this measureText"
    by (rule ext) (simp add: measured_def storedWidth_def split: option.splits)
  show ?thesis
    using structuredTextWidth_parts [of this measureText st ctx]
      structuredTextWidth_sum [of this measureText st ctx]
    by (simp add: a b)
qed

text \<open>
  Claim C2, as stated, fails: when the service returns NaN for the run \<open>{ text: "x" }\<close>,
  the adapter stores NaN on the run, not zero, and the total it returns is not finite.
\<close>

theorem width_adapter_nan_counterexample:
  "fst (structuredTextWidth exampleBlock nanService [plainPart (str ''x'')] freshContext)
     = [(plainPart (str ''x''))\<lparr>width := Some NaN\<rparr>]
   \<and> \<not> isFinite (fst (snd (structuredTextWidth exampleBlock nanService
                              [plainPart (str ''x'')] freshContext)))"
  by (simp add: structuredTextWidth_def plainPart_def Let_def zero_jsnum_def nanService_def)

subsection \<open>The default word splitter\<close>

lemma takeWhile_nth_holds:
  "n < length (takeWhile P xs) \<Longrightarrow> P (xs ! n)"
proof -
  assume lt: "n < length (takeWhile P xs)"
  then have "takeWhile P xs ! n \<in> set (takeWhile P xs)" by (rule nth_mem)
  then have "P (takeWhile P xs ! n)" by (rule set_takeWhileD [THEN conjunct2])
  moreover have "takeWhile P xs ! n = xs ! n" using lt by (rule takeWhile_nth)
  ultimately show ?thesis by simp
qed

lemma regexpExec_None: "regexpExec s i = None \<Longrightarrow> 32 \<notin> set (drop i s)"
  by (simp add: regexpExec_def Let_def split: if_splits)

lemma regexpExec_before:
  assumes "regexpExec s i = Some (index, j)" and "i \<le> k" and "k < index"
  shows "s ! k \<noteq> 32"
proof -
  let ?r = "drop i s"
  from assms(1) have idx: "index = i + length (takeWhile (\<lambda>c. c \<noteq> 32) ?r)"
    by (simp add: regexpExec_def Let_def split: if_splits)
  have il: "index < length s" using regexpExec_progress(4) [OF assms(1)] .
  have "k - i < length (takeWhile (\<lambda>c. c \<noteq> 32) ?r)" using idx assms(2,3) by simp
  then have "?r ! (k - i) \<noteq> 32" by (rule takeWhile_nth_holds)
  moreover have "?r ! (k - i) = s ! k" using assms(2,3) il by simp
  ultimately show ?thesis by simp
qed

lemma regexpExec_inside:
  assumes "regexpExec s i = Some (index, j)" and "index \<le> k" and "k < j"
  shows "s ! k = 32"
proof -
  let ?r = "drop index s"
  from assms(1) have j: "j = index + length (takeWhile (\<lambda>c. c = 32) ?r)"
    by (auto simp: regexpExec_def Let_def split: if_splits)
  have jl: "j \<le> length s" using regexpExec_progress(3) [OF assms(1)] .
  have lt: "k - index < length (takeWhile (\<lambda>c. c = 32) ?r)" using j assms(2,3) by simp
  then have "?r ! (k - index) = 32" by (rule takeWhile_nth_holds)
  moreover have "?r ! (k - index) = s ! k" using assms(2,3) jl by simp
  ultimately show ?thesis by simp
qed

lemma regexpExec_after:
  assumes "regexpExec s i = Some (index, j)" and "j < length s"
  shows "s ! j \<noteq> 32"
proof -
  let ?r = "drop index s"
  let ?n = "length (takeWhile (\<lambda>c. c = 32) ?r)"
  from assms(1) have j: "j = index + ?n"
    by (auto simp: regexpExec_def Let_def split: if_splits)
  have il: "index < length s" using regexpExec_progress(4) [OF assms(1)] .
  have lt: "?n < length ?r" using j assms(2) il by simp
  have "\<not> (?r ! ?n = 32)" using nth_length_takeWhile [OF lt] .
  moreover have "?r ! ?n = s ! j" using j assms(2) il by simp
  ultimately show ?thesis by simp
qed


lemma slice_all:
  assumes "b \<le> length s" and "\<And>k. a \<le> k \<Longrightarrow> k < b \<Longrightarrow> P (s ! k)" and "x \<in> set (slice s a b)"
  shows "P x"
proof -
  from assms(3) obtain i where i: "i < length (slice s a b)" and x: "x = slice s a b ! i"
    by (auto simp: in_set_conv_nth)
  from i have ib: "i < b - a" by (simp add: slice_def)
  then have "x = s ! (a + i)" using x assms(1) by (simp add: slice_def)
  moreover have "P (s ! (a + i))" using ib by (intro assms(2)) simp_all
  ultimately show ?thesis by simp
qed

lemma slice_append: "a \<le> b \<Longrightarrow> b \<le> c \<Longrightarrow> slice s a c = slice s a b @ slice s b c"
proof -
  assume ab: "a \<le> b" and bc: "b \<le> c"
  have "take ((b - a) + (c - b)) (drop a s) = take (b - a) (drop a s) @ take (c - b) (drop (b - a) (drop a s))"
    by (rule take_add)
  moreover have "(b - a) + (c - b) = c - a" using ab bc by simp
  moreover have "drop (b - a) (drop a s) = drop b s" using ab by simp
  ultimately show ?thesis by (simp add: slice_def)
qed

lemma slice_Nil_iff: "b \<le> length s \<Longrightarrow> slice s a b = [] \<longleftrightarrow> b \<le> a"
  by (auto simp: slice_def)

lemma hd_slice: "a < b \<Longrightarrow> b \<le> length s \<Longrightarrow> hd (slice s a b) = s ! a"
  by (simp add: slice_def hd_drop_conv_nth)

lemma last_slice: "a < b \<Longrightarrow> b \<le> length s \<Longrightarrow> last (slice s a b) = s ! (b - 1)"
proof -
  assume ab: "a < b" and bl: "b \<le> length s"
  have len: "length (slice s a b) = b - a" using bl by (simp add: slice_def)
  then have ne: "slice s a b \<noteq> []" using ab by auto
  have "last (slice s a b) = slice s a b ! (b - a - 1)"
    using last_conv_nth [OF ne] len by simp
  also have "\<dots> = s ! (a + (b - a - 1))" using ab bl by (simp add: slice_def)
  also have "a + (b - a - 1) = b - 1" using ab by simp
  finally show ?thesis .
qed

lemma drop_as_slice: "drop a s = slice s a (length s)"
  by (simp add: slice_def)

lemma spacesThenWord_slice:
  assumes "a \<le> b" and "b \<le> c" and "a < c" and "c \<le> length s"
    and sp: "\<And>k. a \<le> k \<Longrightarrow> k < b \<Longrightarrow> s ! k = 32"
    and ns: "\<And>k. b \<le> k \<Longrightarrow> k < c \<Longrightarrow> s ! k \<noteq> 32"
  shows "spacesThenWord (slice s a c)"
proof -
  have bl: "b \<le> length s" using assms by simp
  have A: "\<And>x. x \<in> set (slice s a b) \<Longrightarrow> x = 32"
    using slice_all [OF bl, of a "\<lambda>x. x = 32"] sp by blast
  have B: "\<And>x. x \<in> set (slice s b c) \<Longrightarrow> x \<noteq> 32"
    using slice_all [OF assms(4), of b "\<lambda>x. x \<noteq> 32"] ns by blast
  have "dropWhile (\<lambda>c. c = 32) (slice s a c) = dropWhile (\<lambda>c. c = 32) (slice s b c)"
    using A by (simp add: slice_append [OF assms(1,2)])
  moreover have "set (dropWhile (\<lambda>c. c = 32) (slice s b c)) \<subseteq> set (slice s b c)"
    by (auto dest: set_dropWhileD)
  ultimately have "32 \<notin> set (dropWhile (\<lambda>c. c = 32) (slice s a c))"
    using B by auto
  moreover have "slice s a c \<noteq> []" using assms(3,4) by (simp add: slice_Nil_iff)
  ultimately show ?thesis by (simp add: spacesThenWord_def)
qed


lemma splitInv_step:
  assumes inv: "splitInv s re li sp" and ex: "regexpExec s re = Some (index, re')"
  shows "splitInv s re' index (if li < index then sp @ [slice s li index] else sp)"
proof -
  note p = regexpExec_progress [OF ex]
  from inv have a: "li \<le> re" "re \<le> length s" "concat sp = take li s"
    and spaces: "\<And>k. li \<le> k \<Longrightarrow> k < re \<Longrightarrow> s ! k = 32"
    and edge: "re = 0 \<or> (li < re \<and> (re < length s \<longrightarrow> s ! re \<noteq> 32))"
    and started: "sp \<noteq> [] \<Longrightarrow> re \<noteq> 0"
    and shape: "list_all spacesThenWord sp" "list_all (\<lambda>t. hd t = 32) (tl sp)"
      "list_all (\<lambda>t. last t \<noteq> 32) sp"
    by (simp_all add: splitInv_def)
  have il: "index \<le> length s" using p(4) by simp
  have c1: "index \<le> re'" "re' \<le> length s" using p by simp_all
  have c2: "\<And>k. index \<le> k \<Longrightarrow> k < re' \<Longrightarrow> s ! k = 32"
    using regexpExec_inside [OF ex] by blast
  have c3: "index < re' \<and> (re' < length s \<longrightarrow> s ! re' \<noteq> 32)"
    using p(2) regexpExec_after [OF ex] by blast
  show ?thesis
  proof (cases "li < index")
    case False
    then have "li = index" using a(1) p(1) by simp
    then show ?thesis
      using False a c1 c2 c3 started shape by (simp add: splitInv_def)
  next
    case True
    let ?t = "slice s li index"
    have re_lt: "re < index"
    proof (rule ccontr)
      assume "\<not> re < index"
      then have e: "index = re" using p(1) by simp
      then have "re \<noteq> 0" using True a(1) by simp
      then have "s ! re \<noteq> 32" using edge e p(4) by simp
      then show False using p(5) e by simp
    qed
    have t1: "spacesThenWord ?t"
      using spacesThenWord_slice [OF a(1) p(1) True il] spaces regexpExec_before [OF ex]
      by blast
    have t2: "sp \<noteq> [] \<Longrightarrow> hd ?t = 32"
    proof -
      assume "sp \<noteq> []"
      then have "li < re" using started edge by blast
      then have "s ! li = 32" using spaces by simp
      then show "hd ?t = 32" using hd_slice [OF True il] by simp
    qed
    have t3: "last ?t \<noteq> 32"
    proof -
      have "s ! (index - 1) \<noteq> 32"
        using regexpExec_before [OF ex, of "index - 1"] re_lt by simp
      then show ?thesis using last_slice [OF True il] by simp
    qed
    have cc: "concat (sp @ [?t]) = take index s"
    proof -
      have "take (li + (index - li)) s = take li s @ take (index - li) (drop li s)"
        by (rule take_add)
      then show ?thesis using a(3) True by (simp add: slice_def)
    qed
    have tl: "list_all (\<lambda>t. hd t = 32) (tl (sp @ [?t]))"
      using shape(2) t2 by (cases sp) simp_all
    show ?thesis
      using True c1 c2 c3 cc t1 t3 tl shape p(2) by (simp add: splitInv_def)
  qed
qed

lemma splitLoop_inv:
  "splitInv s re li sp \<Longrightarrow> splitLoop s re li sp = (li', sp')
   \<Longrightarrow> \<exists>re'. splitInv s re' li' sp' \<and> regexpExec s re' = None"
proof (induction s re li sp rule: splitLoop.induct)
  case (1 s reLastIndex lastIndex splitted)
  show ?case
  proof (cases "regexpExec s reLastIndex")
    case None
    then show ?thesis using "1.prems" by (auto simp: splitLoop.simps [of s reLastIndex])
  next
    case (Some x)
    obtain index j where x: "x = (index, j)" by (cases x)
    have ex: "regexpExec s reLastIndex = Some (index, j)" using Some x by simp
    have run: "splitLoop s j index
        (if lastIndex < index then splitted @ [slice s lastIndex index] else splitted) = (li', sp')"
      using "1.prems"(2) ex by (simp add: splitLoop.simps [of s reLastIndex])
    show ?thesis
      using "1.IH" [OF Some x [symmetric] splitInv_step [OF "1.prems"(1) ex] run] .
  qed
qed

text \<open>
  Claim C5. For every input string, the concatenation of the tokens of the default word
  splitter is the input. The string is split exactly in front of the maximal runs of
  spaces: every token is non-empty and consists of spaces followed by characters other
  than the space; every token but the first begins with a space (a run of spaces is the
  start of the token that follows it, or a token of its own at the end of the string);
  every token but the last ends with a character other than the space.
\<close>

theorem default_splitter_lossless:
  "concat (defaultWordSplittingFunction s) = s
   \<and> list_all spacesThenWord (defaultWordSplittingFunction s)
   \<and> list_all (\<lambda>t. hd t = 32) (tl (defaultWordSplittingFunction s))
   \<and> list_all (\<lambda>t. last t \<noteq> 32) (butlast (defaultWordSplittingFunction s))"
proof -
  obtain li sp where run: "splitLoop s 0 0 [] = (li, sp)"
    by (cases "splitLoop s 0 0 []")
  have "splitInv s 0 0 []" by (simp add: splitInv_def)
  from splitLoop_inv [OF this run] obtain re
    where inv: "splitInv s re li sp" and none: "regexpExec s re = None" by blast
  from inv have a: "li \<le> re" "re \<le> length s" "concat sp = take li s"
    and spaces: "\<And>k. li \<le> k \<Longrightarrow> k < re \<Longrightarrow> s ! k = 32"
    and edge: "re = 0 \<or> (li < re \<and> (re < length s \<longrightarrow> s ! re \<noteq> 32))"
    and started: "sp \<noteq> [] \<Longrightarrow> re \<noteq> 0"
    and shape: "list_all spacesThenWord sp" "list_all (\<lambda>t. hd t = 32) (tl sp)"
      "list_all (\<lambda>t. last t \<noteq> 32) sp"
    by (simp_all add: splitInv_def)
  show ?thesis
  proof (cases "li < length s")
    case False
    then have "li = length s" using a by simp
    moreover have "list_all (\<lambda>t. last t \<noteq> 32) (butlast sp)"
      using shape(3) by (auto simp: list_all_iff dest: in_set_butlastD)
    ultimately show ?thesis
      using run a(3) shape by (simp add: defaultWordSplittingFunction_def)
  next
    case True
    let ?t = "drop li s"
    have nospace: "\<And>k. re \<le> k \<Longrightarrow> k < length s \<Longrightarrow> s ! k \<noteq> 32"
    proof -
      fix k assume k: "re \<le> k" "k < length s"
      have lt: "k - re < length (drop re s)" using k by simp
      have "drop re s ! (k - re) = s ! k" using k by simp
      then have "s ! k \<in> set (drop re s)" using nth_mem [OF lt] by simp
      then show "s ! k \<noteq> 32" using regexpExec_None [OF none] by auto
    qed
    have t1: "spacesThenWord ?t"
      using spacesThenWord_slice [OF a(1) a(2) True le_refl] spaces nospace
      by (simp add: drop_as_slice)
    have t2: "sp \<noteq> [] \<Longrightarrow> hd ?t = 32"
    proof -
      assume "sp \<noteq> []"
      then have "li < re" using started edge by blast
      then have "s ! li = 32" using spaces by simp
      then show "hd ?t = 32" using True by (simp add: hd_drop_conv_nth)
    qed
    have tl: "list_all (\<lambda>t. hd t = 32) (tl (sp @ [?t]))"
      using shape(2) t2 by (cases sp) simp_all
    show ?thesis
      using run True a(3) shape t1 tl by (simp add: defaultWordSplittingFunction_def)
  qed
qed

theorem default_splitter_example:
  "concat [str ''ab'', str ''  cd'', str '' e'', str '' ''] = str ''ab  cd e ''
   \<and> defaultWordSplittingFunction (str ''ab  cd e '')
       = [str ''ab'', str ''  cd'', str '' e'', str '' '']
   \<and> list_all spacesThenWord [str ''ab'', str ''  cd'', str '' e'', str '' '']"
proof -
  have e: "defaultWordSplittingFunction (str ''ab  cd e '')
       = [str ''ab'', str ''  cd'', str '' e'', str '' '']"
    by code_simp
  show ?thesis
    using default_splitter_lossless [of "str ''ab  cd e ''"] by (simp add: e)
qed

subsection \<open>Run fusion\<close>

lemma fuseLoop_prefix:
  "fuseLoop l (out @ [x]) rest = out @ fuseLoop l [x] rest"
proof (induction rest arbitrary: l x out)
  case Nil
  show ?case by simp
next
  case (Cons p ps)
  show ?case
  proof (cases "sameOverrides l p")
    case True
    then show ?thesis
      using Cons.IH [of p out] Cons.IH [of p "[]"] by (simp add: Let_def)
  next
    case False
    then show ?thesis
      using Cons.IH [of p "out @ [x]" p] Cons.IH [of p "[x]" p] by simp
  qed
qed

lemma fuseLoop_step:
  "fuseLoop l [x] (p # ps) =
     (if sameOverrides l p then fuseLoop p [mergeParts x p] ps else x # fuseLoop p [p] ps)"
  using fuseLoop_prefix [of p "[x]" p ps] by (simp add: Let_def mergeParts_def)


lemma fuse_as_loop: "fuseStructuredTextParts (a # rest) = fuseLoop a [a] rest"
  by (cases rest) (simp_all add: fuseStructuredTextParts_def)



lemma fuseLoop_text:
  "concat (map text (fuseLoop l [x] rest)) = text x @ concat (map text rest)"
proof (induction rest arbitrary: l x)
  case Nil
  show ?case by simp
next
  case (Cons p ps)
  show ?case
    using Cons.IH [of p "mergeParts x p"] Cons.IH [of p p]
    by (simp add: fuseLoop_step del: fuseLoop.simps(2)) (simp add: mergeParts_def)
qed

lemma fuse_text:
  "concat (map text (fuseStructuredTextParts st)) = concat (map text st)"
proof (cases st)
  case Nil
  then show ?thesis by (simp add: fuseStructuredTextParts_def)
next
  case (Cons x xs)
  then show ?thesis using fuseLoop_text [of x x xs] by (simp add: fuse_as_loop)
qed














subsection \<open>WordWrap\<close>

lemma wordWrapLoop_Cons:
  "wordWrapLoop F this m W (word # words) (ls, cur, cw, ctx) =
     (if sumLeft (map (partWidth \<circ> measured this m) (cur @ [word])) > W \<and> cur \<noteq> [] then
        wordWrapLoop F this m W words
          (ls @ [\<lparr>parts = F (map (measured this m) cur), lineWidth = cw\<rparr>],
           [measured this m (trimmedWord word)],
           sumLeft [partWidth (measured this m (trimmedWord word))],
           widthContext this m [trimmedWord word] (widthContext this m (cur @ [word]) ctx))
      else wordWrapLoop F this m W words
             (ls, map (measured this m) (cur @ [word]),
              sumLeft (map (partWidth \<circ> measured this m) (cur @ [word])),
              widthContext this m (cur @ [word]) ctx))"
  by (simp add: structuredTextWidth_eq trimmedWord_def butlast_append)

lemma wordWrapLoop_fused:
  "wordWrapLoop F this m W words (map (withParts F) ls, cur, cw, ctx) =
     (case wordWrapLoop (\<lambda>x. x) this m W words (ls, cur, cw, ctx) of
        (ls', cur', cw', ctx') \<Rightarrow> (map (withParts F) ls', cur', cw', ctx'))"
proof (induction words arbitrary: ls cur cw ctx)
  case Nil
  show ?case by simp
next
  case (Cons word words)
  let ?c1 = "widthContext this m (cur @ [word]) ctx"
  let ?c2 = "widthContext this m [trimmedWord word] ?c1"
  let ?t = "measured this m (trimmedWord word)"
  show ?case
  proof (cases "sumLeft (map (partWidth \<circ> measured this m) (cur @ [word])) > W \<and> cur \<noteq> []")
    case True
    have L: "wordWrapLoop F this m W (word # words) (map (withParts F) ls, cur, cw, ctx)
        = wordWrapLoop F this m W words
            (map (withParts F) (ls @ [\<lparr>parts = map (measured this m) cur, lineWidth = cw\<rparr>]),
             [?t], sumLeft [partWidth ?t], ?c2)"
      using True by (subst wordWrapLoop_Cons) (simp add: withParts_def)
    have R: "wordWrapLoop (\<lambda>x. x) this m W (word # words) (ls, cur, cw, ctx)
        = wordWrapLoop (\<lambda>x. x) this m W words
            (ls @ [\<lparr>parts = map (measured this m) cur, lineWidth = cw\<rparr>],
             [?t], sumLeft [partWidth ?t], ?c2)"
      using True by (subst wordWrapLoop_Cons) simp
    show ?thesis unfolding L R by (rule Cons.IH)
  next
    case False
    have L: "wordWrapLoop F this m W (word # words) (map (withParts F) ls, cur, cw, ctx)
        = wordWrapLoop F this m W words
            (map (withParts F) ls, map (measured this m) (cur @ [word]),
             sumLeft (map (partWidth \<circ> measured this m) (cur @ [word])), ?c1)"
      using False by (subst wordWrapLoop_Cons) (simp only: if_False)
    have R: "wordWrapLoop (\<lambda>x. x) this m W (word # words) (ls, cur, cw, ctx)
        = wordWrapLoop (\<lambda>x. x) this m W words
            (ls, map (measured this m) (cur @ [word]),
             sumLeft (map (partWidth \<circ> measured this m) (cur @ [word])), ?c1)"
      using False by (subst wordWrapLoop_Cons) (simp only: if_False)
    show ?thesis unfolding L R by (rule Cons.IH)
  qed
qed

lemma wordWrapWith_fused:
  "fst (wordWrapWith F this m line W ctx)
     = map (withParts F) (fst (wordWrapWith (\<lambda>x. x) this m line W ctx))"
  using wordWrapLoop_fused [of F this m W "splitWords this line" "[]" "[]" 0 ctx]
  by (simp add: wordWrapWith_def withParts_def split: prod.splits)


lemma sumLeft_single: "sumLeft [w] = 0 + w"
  by (simp add: sumLeft_def)

lemma not_above_fits: "\<not> W < w \<Longrightarrow> w \<le> W \<or> incomparable w W"
  by (auto simp: incomparable_def)

lemma wrapFit_line:
  assumes "\<not> W < cw \<or> length cur \<le> 1" and "cw = sumLeft (map partWidth cur)"
  shows "wrapFit W \<lparr>parts = cur, lineWidth = cw\<rparr>"
proof (cases "W < cw")
  case False
  then show ?thesis using not_above_fits [of W cw] by (auto simp: wrapFit_def)
next
  case True
  then have "length cur \<le> 1" using assms(1) by simp
  then consider "cur = []" | t where "cur = [t]"
    by (cases cur) (auto simp: length_Suc_conv)
  then show ?thesis
  proof cases
    case 1
    then show ?thesis using assms(2) by (simp add: wrapFit_def)
  next
    case 2
    then show ?thesis using assms(2) by (simp add: wrapFit_def sumLeft_single)
  qed
qed

lemma wrapInv_step:
  assumes "wrapInv this m W ds (ls, cur, cw, ctx)"
  shows "\<exists>st. wordWrapLoop (\<lambda>x. x) this m W (word # words) (ls, cur, cw, ctx)
              = wordWrapLoop (\<lambda>x. x) this m W words st
           \<and> wrapInv this m W (ds @ [word]) st"
proof -
  from assms have pl: "list_all2 (placed this m) ds (concat (map parts ls) @ cur)"
    and fx: "map (measured this m) cur = cur"
    and cw: "cw = sumLeft (map partWidth cur)"
    and fit: "\<not> W < cw \<or> length cur \<le> 1"
    and ls: "list_all (wrapFit W) ls" "list_all (\<lambda>l. parts l \<noteq> []) ls"
    by (auto simp: wrapInv_def)
  let ?w1 = "sumLeft (map (partWidth \<circ> measured this m) (cur @ [word]))"
  let ?c1 = "widthContext this m (cur @ [word]) ctx"
  let ?c2 = "widthContext this m [trimmedWord word] ?c1"
  let ?t = "measured this m (trimmedWord word)"
  show ?thesis
  proof (cases "?w1 > W \<and> cur \<noteq> []")
    case True
    let ?st = "(ls @ [\<lparr>parts = map (measured this m) cur, lineWidth = cw\<rparr>], [?t],
                sumLeft [partWidth ?t], ?c2)"
    have R: "wordWrapLoop (\<lambda>x. x) this m W (word # words) (ls, cur, cw, ctx)
        = wordWrapLoop (\<lambda>x. x) this m W words ?st"
      using True by (subst wordWrapLoop_Cons) simp
    have "wrapFit W \<lparr>parts = cur, lineWidth = cw\<rparr>"
      using fit cw by (rule wrapFit_line)
    moreover have "list_all2 (placed this m) (ds @ [word]) ((concat (map parts ls) @ cur) @ [?t])"
      using pl by (intro list_all2_appendI) (simp_all add: placed_def)
    ultimately have "wrapInv this m W (ds @ [word]) ?st"
      using fx ls True by (simp add: wrapInv_def)
    then show ?thesis using R by blast
  next
    case False
    let ?st = "(ls, map (measured this m) (cur @ [word]), ?w1, ?c1)"
    have R: "wordWrapLoop (\<lambda>x. x) this m W (word # words) (ls, cur, cw, ctx)
        = wordWrapLoop (\<lambda>x. x) this m W words ?st"
      using False by (subst wordWrapLoop_Cons) (simp only: if_False)
    have "list_all2 (placed this m) (ds @ [word])
            ((concat (map parts ls) @ cur) @ [measured this m word])"
      using pl by (intro list_all2_appendI) (simp_all add: placed_def)
    moreover have "\<not> W < ?w1 \<or> length (cur @ [word]) \<le> 1" using False by auto
    moreover have "?w1 = sumLeft (map partWidth (map (measured this m) (cur @ [word])))"
      by (simp add: comp_def)
    ultimately have "wrapInv this m W (ds @ [word]) ?st"
      using fx ls by (simp add: wrapInv_def)
    then show ?thesis using R by blast
  qed
qed

lemma wrapInv_loop:
  "wrapInv this m W ds st \<Longrightarrow> wrapInv this m W (ds @ words) (wordWrapLoop (\<lambda>x. x) this m W words st)"
proof (induction words arbitrary: ds st)
  case Nil
  then show ?case by simp
next
  case (Cons word words)
  obtain ls cur cw ctx where st: "st = (ls, cur, cw, ctx)" by (cases st)
  from wrapInv_step [OF Cons.prems [unfolded st], of word words] obtain st'
    where e: "wordWrapLoop (\<lambda>x. x) this m W (word # words) (ls, cur, cw, ctx)
              = wordWrapLoop (\<lambda>x. x) this m W words st'"
      and i: "wrapInv this m W (ds @ [word]) st'" by blast
  show ?case using Cons.IH [OF i] e st by simp
qed

lemma wordWrap_raw:
  assumes "wordWrapLoop (\<lambda>x. x) this m W (splitWords this line) ([], [], 0, ctx) = (ls, cur, cw, ctx')"
  shows "wrapInv this m W (splitWords this line) (ls, cur, cw, ctx')"
    and "fst (wordWrapWith (\<lambda>x. x) this m line W ctx) = ls @ [\<lparr>parts = cur, lineWidth = cw\<rparr>]"
proof -
  have "wrapInv this m W [] ([], [], 0, ctx)" by (simp add: wrapInv_def)
  from wrapInv_loop [OF this, of "splitWords this line"] assms
  show "wrapInv this m W (splitWords this line) (ls, cur, cw, ctx')" by simp
  show "fst (wordWrapWith (\<lambda>x. x) this m line W ctx) = ls @ [\<lparr>parts = cur, lineWidth = cw\<rparr>]"
    using assms by (simp add: wordWrapWith_def)
qed


lemma list_all2_rhs_witness:
  "list_all2 P xs ys \<Longrightarrow> y \<in> set ys \<Longrightarrow> \<exists>x\<in>set xs. P x y"
  by (induction rule: list_all2_induct) auto

lemma splitWords_width:
  "list_all (\<lambda>p. width p = None) line \<Longrightarrow> w \<in> set (splitWords this line) \<Longrightarrow> width w = None"
  by (auto simp: splitWords_def Let_def list_all_iff)

lemma placed_selfMeasured:
  "placed this m w t \<Longrightarrow> width w = None \<Longrightarrow> selfMeasured this m t"
  by (auto simp: placed_def selfMeasured_def measured_def trimmedWord_def partFont_def
        inheritAttributes_def)

lemma wordWrap_tokens_selfMeasured:
  assumes "list_all (\<lambda>p. width p = None) line"
    and "list_all2 (placed this m) (splitWords this line) ts"
  shows "list_all (selfMeasured this m) ts"
proof -
  have "selfMeasured this m t" if "t \<in> set ts" for t
  proof -
    from list_all2_rhs_witness [OF assms(2) that] obtain w
      where w: "w \<in> set (splitWords this line)" and p: "placed this m w t" by blast
    show ?thesis using placed_selfMeasured [OF p splitWords_width [OF assms(1) w]] .
  qed
  then show ?thesis by (simp add: list_all_iff)
qed

text \<open>
  On the doubles two numbers are incomparable exactly when one of them is NaN.
\<close>

lemma incomparable_jsnum: "incomparable (a::jsnum) b \<longleftrightarrow> a = NaN \<or> b = NaN"
  by (cases a; cases b) (auto simp: incomparable_def min.commute)

text \<open>
  Claim C6, amended. Every line emitted by the structured WordWrap policy has a recorded
  width at most the target width, except a line whose recorded width is not comparable
  with the target (on the doubles: the width or the target is NaN), except a line that
  consists of a single token (its width is then the width of that token, added to 0) and
  except the line without tokens, of width 0, that is emitted for a group without tokens.
  When the runs of the group carry no cached width, the width of every token is its own
  measured width. The lines of the policy are the test lines (the token lists of
  \<open>wordWrapWith\<close> with the identity), each passed through fusion. This holds for every
  number type, the doubles included.
\<close>

theorem wordwrap_lines_fit:
  "list_all (wrapFit maxWidth) (fst (wordWrapWith (\<lambda>x. x) this m line maxWidth ctx))
   \<and> (splitWords this line \<noteq> [] \<longrightarrow>
        list_all (\<lambda>l. parts l \<noteq> []) (fst (wordWrapWith (\<lambda>x. x) this m line maxWidth ctx)))
   \<and> (list_all (\<lambda>p. width p = None) line \<longrightarrow>
        list_all (selfMeasured this m)
          (concat (map parts (fst (wordWrapWith (\<lambda>x. x) this m line maxWidth ctx)))))
   \<and> fst (parseStructuredTextLineWordWrap this m line maxWidth ctx)
       = map (withParts fuseStructuredTextParts)
           (fst (wordWrapWith (\<lambda>x. x) this m line maxWidth ctx))"
proof -
  obtain ls cur cw ctx' where run:
    "wordWrapLoop (\<lambda>x. x) this m maxWidth (splitWords this line) ([], [], 0, ctx) = (ls, cur, cw, ctx')"
    by (cases "wordWrapLoop (\<lambda>x. x) this m maxWidth (splitWords this line) ([], [], 0, ctx)") auto
  note raw = wordWrap_raw [OF run]
  from raw(1) have cw: "cw = sumLeft (map partWidth cur)"
    and fit: "\<not> maxWidth < cw \<or> length cur \<le> 1"
    and ls: "list_all (wrapFit maxWidth) ls" "list_all (\<lambda>l. parts l \<noteq> []) ls"
    and ne: "splitWords this line \<noteq> [] \<Longrightarrow> cur \<noteq> []"
    and pl: "list_all2 (placed this m) (splitWords this line) (concat (map parts ls) @ cur)"
    by (auto simp: wrapInv_def)
  have last_fit: "wrapFit maxWidth \<lparr>parts = cur, lineWidth = cw\<rparr>"
    using fit cw by (rule wrapFit_line)
  have own: "list_all (\<lambda>p. width p = None) line
      \<Longrightarrow> list_all (selfMeasured this m) (concat (map parts ls) @ cur)"
    using wordWrap_tokens_selfMeasured [OF _ pl] by simp
  show ?thesis
    using raw(2) ls ne last_fit own
    by (simp add: parseStructuredTextLineWordWrap_def wordWrapWith_fused [of fuseStructuredTextParts])
qed

text \<open>
  Claim C7. The loop of WordWrap runs once over the token stream, so it terminates for
  every target width. The tokens of the emitted lines, taken line after line, stand for
  the words of the token stream one for one and in order: each is its word after
  measuring, or its left-trimmed word after measuring (the first token of a line opened
  by a break). Fusion does not change the text of a line.
\<close>

theorem wordwrap_places_every_token:
  fixes this :: "'n::{zero,plus,ord} TextBlock"
  shows "list_all2 (placed this m) (splitWords this line)
     (concat (map parts (fst (wordWrapWith (\<lambda>x. x) this m line maxWidth ctx))))
   \<and> fst (parseStructuredTextLineWordWrap this m line maxWidth ctx)
       = map (withParts fuseStructuredTextParts)
           (fst (wordWrapWith (\<lambda>x. x) this m line maxWidth ctx))
   \<and> map (concat \<circ> map text \<circ> parts) (fst (parseStructuredTextLineWordWrap this m line maxWidth ctx))
       = map (concat \<circ> map text \<circ> parts) (fst (wordWrapWith (\<lambda>x. x) this m line maxWidth ctx))"
proof -
  obtain ls cur cw ctx' where run:
    "wordWrapLoop (\<lambda>x. x) this m maxWidth (splitWords this line) ([], [], 0, ctx) = (ls, cur, cw, ctx')"
    by (cases "wordWrapLoop (\<lambda>x. x) this m maxWidth (splitWords this line) ([], [], 0, ctx)") auto
  note raw = wordWrap_raw [OF run]
  from raw(1) have pl: "list_all2 (placed this m) (splitWords this line) (concat (map parts ls) @ cur)"
    by (auto simp: wrapInv_def)
  have same_text: "concat (map text (fuseStructuredTextParts xs)) = concat (map text xs)"
    for xs :: "'n StructuredTextPart list"
    by (rule fuse_text)
  have link: "fst (parseStructuredTextLineWordWrap this m line maxWidth ctx)
       = map (withParts fuseStructuredTextParts)
           (fst (wordWrapWith (\<lambda>x. x) this m line maxWidth ctx))"
    by (simp add: parseStructuredTextLineWordWrap_def wordWrapWith_fused [of fuseStructuredTextParts])
  have "map (concat \<circ> map text \<circ> parts) (map (withParts fuseStructuredTextParts) xs)
      = map (concat \<circ> map text \<circ> parts) xs" for xs :: "'n StructuredTextLine list"
    by (induction xs) (simp_all add: withParts_def same_text)
  then have "map (concat \<circ> map text \<circ> parts)
        (fst (parseStructuredTextLineWordWrap this m line maxWidth ctx))
      = map (concat \<circ> map text \<circ> parts)
          (fst (wordWrapWith (\<lambda>x. x) this m line maxWidth ctx))"
    by (simp only: link)
  moreover have "list_all2 (placed this m) (splitWords this line)
     (concat (map parts (fst (wordWrapWith (\<lambda>x. x) this m line maxWidth ctx))))"
    using pl raw(2) by simp
  ultimately show ?thesis using link by blast
qed

text \<open>
  Examples on the doubles. The run \<open>aa bb cc\<close> with ten pixels for each character and
  the target 50: the test lines, and the lines after fusion.
\<close>

lemma split_three_words: "defaultWordSplittingFunction (str ''aa bb cc'') = [str ''aa'', str '' bb'', str '' cc'']"
  by code_simp

lemma wordWrap_tokens_example:
  "fst (wordWrapWith (\<lambda>x. x) exampleBlock tenPerCharDouble [plainPart (str ''aa bb cc'')]
          (jsInt 50) freshContext)
   = [\<lparr>parts = [(plainPart (str ''aa''))\<lparr>width := Some (jsInt 20)\<rparr>,
                (plainPart (str '' bb''))\<lparr>width := Some (jsInt 30)\<rparr>], lineWidth = jsInt 50\<rparr>,
      \<lparr>parts = [(plainPart (str ''cc''))\<lparr>width := Some (jsInt 20)\<rparr>], lineWidth = jsInt 20\<rparr>]"
proof -
  note e = split_three_words [unfolded str_def, simplified]
  show ?thesis
    by (simp add: wordWrapWith_def splitWords_def exampleBlock_def e wordWrapLoop_Cons
          measured_def partWidth_def sumLeft_def tenPerCharDouble_def plainPart_def
          trimmedWord_def trimStart_def isWhiteSpace_def str_def jsInt_0 [symmetric] jsInt_add
          jsInt_less_iff del: wordWrapLoop.simps(2))
qed

lemma wordWrap_fused_example:
  "fst (parseStructuredTextLineWordWrap exampleBlock tenPerCharDouble
          [plainPart (str ''aa bb cc'')] (jsInt 50) freshContext)
   = [\<lparr>parts = [(plainPart (str ''aa bb''))\<lparr>width := Some (jsInt 50)\<rparr>], lineWidth = jsInt 50\<rparr>,
      \<lparr>parts = [(plainPart (str ''cc''))\<lparr>width := Some (jsInt 20)\<rparr>], lineWidth = jsInt 20\<rparr>]"
  unfolding parseStructuredTextLineWordWrap_def wordWrapWith_fused [of fuseStructuredTextParts]
    wordWrap_tokens_example
  by (simp add: withParts_def fuseStructuredTextParts_def sameOverrides_def plainPart_def str_def
        jsInt_0 [symmetric] jsInt_add jsInt_less_iff)

theorem wordwrap_lines_fit_example:
  "splitWords exampleBlock [plainPart (str ''aa bb cc'') :: jsnum StructuredTextPart] \<noteq> []
   \<and> width (plainPart (str ''aa bb cc'') :: jsnum StructuredTextPart) = None
   \<and> fst (wordWrapWith (\<lambda>x. x) exampleBlock tenPerCharDouble [plainPart (str ''aa bb cc'')]
            (jsInt 50) freshContext)
       = [\<lparr>parts = [(plainPart (str ''aa''))\<lparr>width := Some (jsInt 20)\<rparr>,
                    (plainPart (str '' bb''))\<lparr>width := Some (jsInt 30)\<rparr>],
           lineWidth = jsInt 50\<rparr>,
          \<lparr>parts = [(plainPart (str ''cc''))\<lparr>width := Some (jsInt 20)\<rparr>],
           lineWidth = jsInt 20\<rparr>]
   \<and> jsInt 50 \<le> jsInt 50 \<and> jsInt 20 \<le> jsInt 50
   \<and> list_all (selfMeasured exampleBlock tenPerCharDouble)
        [(plainPart (str ''aa''))\<lparr>width := Some (jsInt 20)\<rparr>,
         (plainPart (str '' bb''))\<lparr>width := Some (jsInt 30)\<rparr>,
         (plainPart (str ''cc''))\<lparr>width := Some (jsInt 20)\<rparr>]
   \<and> fst (parseStructuredTextLineWordWrap exampleBlock tenPerCharDouble
            [plainPart (str ''aa bb cc'')] (jsInt 50) freshContext)
       = [\<lparr>parts = [(plainPart (str ''aa bb''))\<lparr>width := Some (jsInt 50)\<rparr>],
           lineWidth = jsInt 50\<rparr>,
          \<lparr>parts = [(plainPart (str ''cc''))\<lparr>width := Some (jsInt 20)\<rparr>],
           lineWidth = jsInt 20\<rparr>]"
proof -
  have a: "splitWords exampleBlock [plainPart (str ''aa bb cc'') :: jsnum StructuredTextPart] \<noteq> []"
    by (simp add: splitWords_def exampleBlock_def plainPart_def split_three_words)
  have b: "list_all (\<lambda>p. width p = None) [plainPart (str ''aa bb cc'') :: jsnum StructuredTextPart]"
    by (simp add: plainPart_def)
  have c: "width (plainPart (str ''aa bb cc'') :: jsnum StructuredTextPart) = None"
    by (simp add: plainPart_def)
  have d: "jsInt 50 \<le> jsInt 50" "jsInt 20 \<le> jsInt 50"
    by (simp_all add: jsInt_le_iff)
  show ?thesis
    using wordwrap_lines_fit [of "jsInt 50" exampleBlock tenPerCharDouble
        "[plainPart (str ''aa bb cc'')]" freshContext] a b c d
    by (simp add: wordWrap_fused_example wordWrap_tokens_example)
qed

text \<open>
  Claim C6, as stated, fails on the doubles in two ways. For a group without tokens and
  the target width -1 the single line emitted has no token and the width 0, above the
  target. When the measurement service returns NaN no break is made: the two tokens of
  \<open>aa bb\<close> are emitted on one line of recorded width NaN, which is not at most the
  target 5.
\<close>

lemma wordWrap_no_token_example:
  "fst (parseStructuredTextLineWordWrap exampleBlock tenPerCharDouble [plainPart []]
          (jsInt (- 1)) freshContext)
   = [\<lparr>parts = [], lineWidth = 0\<rparr>]"
  by (simp add: parseStructuredTextLineWordWrap_def wordWrapWith_def splitWords_def
        exampleBlock_def plainPart_def default_split_no_space fuseStructuredTextParts_def)

lemma split_two_words: "defaultWordSplittingFunction (str ''aa bb'') = [str ''aa'', str '' bb'']"
  by code_simp

lemma wordWrap_nan_example:
  "fst (wordWrapWith (\<lambda>x. x) exampleBlock nanService [plainPart (str ''aa bb'')] (jsInt 5)
          freshContext)
   = [\<lparr>parts = [(plainPart (str ''aa''))\<lparr>width := Some NaN\<rparr>,
                (plainPart (str '' bb''))\<lparr>width := Some NaN\<rparr>], lineWidth = NaN\<rparr>]"
proof -
  note e = split_two_words [unfolded str_def, simplified]
  show ?thesis
    by (simp add: wordWrapWith_def splitWords_def exampleBlock_def e wordWrapLoop_Cons
          measured_def partWidth_def sumLeft_def nanService_def plainPart_def
          trimmedWord_def trimStart_def isWhiteSpace_def str_def zero_jsnum_def jsInt_def
          round64_def Let_def del: wordWrapLoop.simps(2))
qed

theorem wordwrap_unfit_lines_counterexample:
  "fst (parseStructuredTextLineWordWrap exampleBlock tenPerCharDouble [plainPart []]
          (jsInt (- 1)) freshContext)
     = [\<lparr>parts = [], lineWidth = 0\<rparr>]
   \<and> \<not> (0::jsnum) \<le> jsInt (- 1)
   \<and> fst (wordWrapWith (\<lambda>x. x) exampleBlock nanService [plainPart (str ''aa bb'')] (jsInt 5)
          freshContext)
     = [\<lparr>parts = [(plainPart (str ''aa''))\<lparr>width := Some NaN\<rparr>,
                  (plainPart (str '' bb''))\<lparr>width := Some NaN\<rparr>], lineWidth = NaN\<rparr>]
   \<and> \<not> NaN \<le> jsInt 5"
proof -
  have "\<not> (0::jsnum) \<le> jsInt (- 1)" and "\<not> NaN \<le> jsInt 5"
    by (simp_all add: zero_jsnum_def jsInt_def round64_def Let_def)
  then show ?thesis
    by (simp add: wordWrap_no_token_example wordWrap_nan_example)
qed

text \<open>
  A word is a copy of its run, the cached width of the run included. When the run
  \<open>a b\<close> carries the width 30 of its whole text, each of its two words enters the test
  line with the width 30: with the target 25 the first line is the token \<open>a\<close> with the
  recorded width 30, although that token measures 10. (The word that opens the second
  line is measured again.)
\<close>

lemma wordwrap_inherited_width_example:
  "fst (wordWrapWith (\<lambda>x. x) exampleBlock tenPerChar
          [(plainPart (str ''a b''))\<lparr>width := Some 30\<rparr>] 25 freshContext)
   = [\<lparr>parts = [(plainPart (str ''a''))\<lparr>width := Some 30\<rparr>], lineWidth = 30\<rparr>,
      \<lparr>parts = [(plainPart (str ''b''))\<lparr>width := Some 10\<rparr>], lineWidth = 10\<rparr>]"
proof -
  have "defaultWordSplittingFunction (str ''a b'') = [str ''a'', str '' b'']"
    by code_simp
  note e = this [unfolded str_def, simplified]
  show ?thesis
    by (simp add: wordWrapWith_def splitWords_def exampleBlock_def e wordWrapLoop_Cons
          measured_def partWidth_def sumLeft_def tenPerChar_def plainPart_def trimmedWord_def
          trimStart_def
          isWhiteSpace_def str_def del: wordWrapLoop.simps(2))
qed

lemma wordWrap_negative_target_example:
  "fst (wordWrapWith (\<lambda>x. x) exampleBlock tenPerChar [plainPart (str ''aa bb'')] (- 5)
          freshContext)
   = [\<lparr>parts = [(plainPart (str ''aa''))\<lparr>width := Some 20\<rparr>], lineWidth = 20\<rparr>,
      \<lparr>parts = [(plainPart (str ''bb''))\<lparr>width := Some 20\<rparr>], lineWidth = 20\<rparr>]"
proof -
  note e = split_two_words [unfolded str_def, simplified]
  show ?thesis
    by (simp add: wordWrapWith_def splitWords_def exampleBlock_def e wordWrapLoop_Cons
          measured_def partWidth_def sumLeft_def tenPerChar_def plainPart_def trimmedWord_def
          trimStart_def
          isWhiteSpace_def str_def del: wordWrapLoop.simps(2))
qed

theorem wordwrap_places_every_token_example:
  "list_all2 (placed exampleBlock tenPerChar)
     [plainPart (str ''aa''), plainPart (str '' bb'')]
     [(plainPart (str ''aa''))\<lparr>width := Some 20\<rparr>, (plainPart (str ''bb''))\<lparr>width := Some 20\<rparr>]
   \<and> map (concat \<circ> map text \<circ> parts)
        (fst (parseStructuredTextLineWordWrap exampleBlock tenPerChar
                [plainPart (str ''aa bb'')] (- 5) freshContext))
       = [str ''aa'', str ''bb'']"
proof -
  have w: "splitWords exampleBlock [plainPart (str ''aa bb'')]
       = [plainPart (str ''aa''), plainPart (str '' bb'')]"
    by (simp add: splitWords_def exampleBlock_def plainPart_def split_two_words)
  note t = wordwrap_places_every_token [of exampleBlock tenPerChar
      "[plainPart (str ''aa bb'')]" "- 5" freshContext]
  from t have "list_all2 (placed exampleBlock tenPerChar)
      (splitWords exampleBlock [plainPart (str ''aa bb'')])
      (concat (map parts (fst (wordWrapWith (\<lambda>x. x) exampleBlock tenPerChar
         [plainPart (str ''aa bb'')] (- 5) freshContext))))" by (rule conjunct1)
  then have a: "list_all2 (placed exampleBlock tenPerChar)
     [plainPart (str ''aa''), plainPart (str '' bb'')]
     [(plainPart (str ''aa''))\<lparr>width := Some 20\<rparr>, (plainPart (str ''bb''))\<lparr>width := Some 20\<rparr>]"
    unfolding w wordWrap_negative_target_example by simp
  from t have "map (concat \<circ> map text \<circ> parts)
        (fst (parseStructuredTextLineWordWrap exampleBlock tenPerChar
                [plainPart (str ''aa bb'')] (- 5) freshContext))
      = map (concat \<circ> map text \<circ> parts)
          (fst (wordWrapWith (\<lambda>x. x) exampleBlock tenPerChar
             [plainPart (str ''aa bb'')] (- 5) freshContext))" by blast
  then have b: "map (concat \<circ> map text \<circ> parts)
        (fst (parseStructuredTextLineWordWrap exampleBlock tenPerChar
                [plainPart (str ''aa bb'')] (- 5) freshContext))
       = [str ''aa'', str ''bb'']"
    unfolding wordWrap_negative_target_example by (simp add: plainPart_def)
  show ?thesis using a b by (rule conjI)
qed
subsection \<open>Ellipsis\<close>

lemma ellipsisChars_unfold:
  "ellipsisChars this m W chars (line, lw, ctx) =
     (if chars \<noteq> [] \<and> lw > W then
        ellipsisChars this m W (butlast chars)
          (map (measured this m)
             (butlast line @ [(last line)\<lparr>text := butlast chars @ ellipsisMarker, width := None\<rparr>]),
           sumLeft (map (partWidth \<circ> measured this m)
             (butlast line @ [(last line)\<lparr>text := butlast chars @ ellipsisMarker, width := None\<rparr>])),
           widthContext this m
             (butlast line @ [(last line)\<lparr>text := butlast chars @ ellipsisMarker, width := None\<rparr>])
             ctx)
      else (line, lw, ctx))"
  by (subst ellipsisChars.simps) (simp add: structuredTextWidth_eq)

lemma ellipsisLoop_exit:
  "ellipsisLoop this m W st = (line', lw', ctx') \<Longrightarrow> line' = [] \<or> \<not> W < lw'"
proof (induction this m W st rule: ellipsisLoop.induct)
  case (1 this m W line lw ctx)
  show ?case
  proof (cases "line \<noteq> [] \<and> lw > W")
    case False
    then show ?thesis using "1.prems" by (auto simp: ellipsisLoop.simps [of this m W line])
  next
    case True
    obtain line1 lw1 ctx1 where
      c: "ellipsisChars this m W (text (last line)) (line, lw, ctx) = (line1, lw1, ctx1)"
      by (cases "ellipsisChars this m W (text (last line)) (line, lw, ctx)") auto
    have run: "ellipsisLoop this m W (if lw1 > W then butlast line1 else line1, lw1, ctx1)
        = (line', lw', ctx')"
      using "1.prems" True c by (simp add: ellipsisLoop.simps [of this m W line])
    show ?thesis
      using "1.IH" [OF True c [symmetric] refl run] .
  qed
qed

lemma partFont_update [simp]:
  "partFont this (p\<lparr>text := t, width := w\<rparr>) = partFont this p"
  by (simp add: partFont_def inheritAttributes_def)

lemma partFont_measured [simp]: "partFont this (measured this m p) = partFont this p"
  by (simp add: measured_def partFont_def inheritAttributes_def split: option.splits)

lemma partWidth_measured_fresh [simp]:
  "partWidth (measured this m (p\<lparr>text := t, width := None\<rparr>)) = m (partFont this p) t"
  by (simp add: measured_def partWidth_def)

lemma map_fixed_butlast: "map f xs = xs \<Longrightarrow> map f (butlast xs) = butlast xs"
  by (simp add: map_butlast)

lemma ellInv_butlast_empty:
  assumes "ellInv this m F W line lw" and "line \<noteq> []" and "text (last line) = []"
    and "W < lw"
  shows "ellInv this m F W (butlast line) lw"
proof -
  have split: "line = butlast line @ [last line]" using assms(2) by simp
  have mem: "set (butlast line) \<subseteq> set line" by (auto dest: in_set_butlastD)
  have z: "partWidth (last line) = 0" using assms by (simp add: ellInv_def)
  have "map partWidth line = map partWidth (butlast line) @ [partWidth (last line)]"
    by (subst split) (simp del: append_butlast_last_id)
  then have ws: "map partWidth line = map partWidth (butlast line) @ [0]"
    using z by simp
  have fx: "map (measured this m) (butlast line) = butlast line"
    using assms(1) by (intro map_fixed_butlast) (simp add: ellInv_def)
  have fonts: "partFont this ` set (butlast line) \<subseteq> F"
    using assms(1) mem by (auto simp: ellInv_def)
  have empty: "\<forall>p\<in>set (butlast line). text p = [] \<longrightarrow> partWidth p = 0"
    using assms(1) mem by (auto simp: ellInv_def)
  from assms(1) have alt: "lw = sumLeft (map partWidth line)
      \<or> (\<exists>j. lw = sumLeft (map partWidth line @ replicate j 0)
              \<or> (\<exists>f\<in>F. lw = sumLeft (map partWidth line @ replicate j 0 @ [m f ellipsisMarker])))"
    by (auto simp: ellInv_def)
  have "\<exists>j. lw = sumLeft (map partWidth (butlast line) @ replicate j 0)
           \<or> (\<exists>f\<in>F. lw = sumLeft (map partWidth (butlast line) @ replicate j 0
                                    @ [m f ellipsisMarker]))"
    using alt
  proof
    assume "lw = sumLeft (map partWidth line)"
    then have "lw = sumLeft (map partWidth (butlast line) @ replicate (Suc 0) 0)"
      by (simp only: ws) simp
    then show ?thesis by blast
  next
    assume "\<exists>j. lw = sumLeft (map partWidth line @ replicate j 0)
              \<or> (\<exists>f\<in>F. lw = sumLeft (map partWidth line @ replicate j 0 @ [m f ellipsisMarker]))"
    then obtain j where j: "lw = sumLeft (map partWidth line @ replicate j 0)
              \<or> (\<exists>f\<in>F. lw = sumLeft (map partWidth line @ replicate j 0 @ [m f ellipsisMarker]))"
      by blast
    have r: "map partWidth line @ replicate j 0
        = map partWidth (butlast line) @ replicate (Suc j) 0"
      by (simp only: ws) simp
    from j have "lw = sumLeft (map partWidth (butlast line) @ replicate (Suc j) 0)
              \<or> (\<exists>f\<in>F. lw = sumLeft (map partWidth (butlast line) @ replicate (Suc j) 0
                                       @ [m f ellipsisMarker]))"
      by (simp only: r append_assoc [symmetric])
    then show ?thesis by blast
  qed
  then show ?thesis
    using fx fonts empty assms(4) unfolding ellInv_def by blast
qed

lemma ellipsisChars_inv:
  assumes "line \<noteq> []" and "ellInv this m F W line lw"
    and "chars = [] \<Longrightarrow> W < lw \<Longrightarrow> ellInv this m F W (butlast line) lw"
    and "ellipsisChars this m W chars (line, lw, ctx) = (line', lw', ctx')"
  shows "ellInv this m F W line' lw' \<and> (W < lw' \<longrightarrow> ellInv this m F W (butlast line') lw')"
  using assms
proof (induction "length chars" arbitrary: chars line lw ctx)
  case 0
  then show ?case by (simp add: ellipsisChars_unfold)
next
  case (Suc n)
  then have ne: "chars \<noteq> []" by auto
  show ?case
  proof (cases "W < lw")
    case False
    then show ?thesis using Suc.prems by (simp add: ellipsisChars_unfold)
  next
    case True
    let ?q = "(last line)\<lparr>text := butlast chars @ ellipsisMarker, width := None\<rparr>"
    let ?L = "map (measured this m) (butlast line @ [?q])"
    let ?w = "sumLeft (map (partWidth \<circ> measured this m) (butlast line @ [?q]))"
    let ?c = "widthContext this m (butlast line @ [?q]) ctx"
    have run: "ellipsisChars this m W (butlast chars) (?L, ?w, ?c) = (line', lw', ctx')"
      using Suc.prems(4) True ne by (subst (asm) ellipsisChars_unfold) simp
    have mem: "set (butlast line) \<subseteq> set line" by (auto dest: in_set_butlastD)
    have lastin: "last line \<in> set line" using Suc.prems(1) by simp
    from Suc.prems(2) have fx: "map (measured this m) line = line"
      and fonts: "partFont this ` set line \<subseteq> F"
      and empty: "\<forall>p\<in>set line. text p = [] \<longrightarrow> partWidth p = 0"
      by (simp_all add: ellInv_def)
    have fxb: "map (measured this m) (butlast line) = butlast line"
      using fx by (rule map_fixed_butlast)
    have L: "?L = butlast line @ [measured this m ?q]" using fxb by simp
    have w: "?w = sumLeft (map partWidth (butlast line)
                  @ [m (partFont this (last line)) (butlast chars @ ellipsisMarker)])"
    proof -
      have "?w = sumLeft (map partWidth ?L)" by (simp add: comp_def)
      then show ?thesis unfolding L by simp
    qed
    have f: "partFont this (last line) \<in> F" using fonts lastin by blast
    have inv1: "ellInv this m F W ?L ?w"
    proof -
      have "map (measured this m) ?L = ?L" by simp
      moreover have "partFont this ` set ?L \<subseteq> F"
        unfolding L using fonts mem f by auto
      moreover have "\<forall>p\<in>set ?L. text p = [] \<longrightarrow> partWidth p = 0"
        unfolding L using empty mem by (auto simp: ellipsisMarker_def)
      moreover have "?w = sumLeft (map partWidth ?L)" by (simp add: comp_def)
      ultimately show ?thesis unfolding ellInv_def by blast
    qed
    have inv2: "butlast chars = [] \<Longrightarrow> W < ?w \<Longrightarrow> ellInv this m F W (butlast ?L) ?w"
    proof -
      assume e: "butlast chars = []" and big: "W < ?w"
      have b: "butlast ?L = butlast line" unfolding L by simp
      have "?w = sumLeft (map partWidth (butlast line) @ replicate 0 0
                   @ [m (partFont this (last line)) ellipsisMarker])"
        using w e by simp
      then have "W < ?w \<and> (\<exists>j. ?w = sumLeft (map partWidth (butlast line) @ replicate j 0)
          \<or> (\<exists>f\<in>F. ?w = sumLeft (map partWidth (butlast line) @ replicate j 0
                                  @ [m f ellipsisMarker])))"
        using f big by blast
      moreover have "partFont this ` set (butlast line) \<subseteq> F" using fonts mem by blast
      moreover have "\<forall>p\<in>set (butlast line). text p = [] \<longrightarrow> partWidth p = 0"
        using empty mem by blast
      ultimately show ?thesis unfolding b ellInv_def using fxb by blast
    qed
    have n: "n = length (butlast chars)" using Suc.hyps(2) by simp
    have neL: "?L \<noteq> []" by simp
    show ?thesis
      using Suc.hyps(1) [OF n neL inv1 inv2 run] by simp
  qed
qed

lemma ellipsisLoop_inv:
  "ellInv this m F W line lw \<Longrightarrow> ellipsisLoop this m W (line, lw, ctx) = (line', lw', ctx')
   \<Longrightarrow> ellInv this m F W line' lw'"
proof (induction this m W "(line, lw, ctx)" arbitrary: line lw ctx rule: ellipsisLoop.induct)
  case (1 this m W line lw ctx)
  show ?case
  proof (cases "line \<noteq> [] \<and> lw > W")
    case False
    then show ?thesis using "1.prems" by (auto simp: ellipsisLoop.simps [of this m W line])
  next
    case True
    obtain line1 lw1 ctx1 where
      c: "ellipsisChars this m W (text (last line)) (line, lw, ctx) = (line1, lw1, ctx1)"
      by (cases "ellipsisChars this m W (text (last line)) (line, lw, ctx)") auto
    have run: "ellipsisLoop this m W (if lw1 > W then butlast line1 else line1, lw1, ctx1)
        = (line', lw', ctx')"
      using "1.prems"(2) True c by (simp add: ellipsisLoop.simps [of this m W line])
    have pre: "text (last line) = [] \<Longrightarrow> W < lw \<Longrightarrow> ellInv this m F W (butlast line) lw"
      using ellInv_butlast_empty [OF "1.prems"(1)] True by simp
    have inner: "ellInv this m F W line1 lw1 \<and> (W < lw1 \<longrightarrow> ellInv this m F W (butlast line1) lw1)"
      using ellipsisChars_inv [OF _ "1.prems"(1) pre c] True by simp
    then have next_inv: "ellInv this m F W (if lw1 > W then butlast line1 else line1) lw1"
      by simp
    show ?thesis
      using "1.hyps" [OF True c [symmetric] refl next_inv run] .
  qed
qed

lemma ellInv_initial:
  assumes "\<forall>f. m f [] = 0"
    and "\<forall>p\<in>set line. text p = [] \<longrightarrow> width p = None \<or> width p = Some 0"
  shows "ellInv this m (partFont this ` set line) W (map (measured this m) line)
           (sumLeft (map (partWidth \<circ> measured this m) line))"
proof -
  have "\<forall>p\<in>set (map (measured this m) line). text p = [] \<longrightarrow> partWidth p = 0"
    using assms by (auto simp: measured_def partWidth_def split: option.splits)
  moreover have "partFont this ` set (map (measured this m) line) \<subseteq> partFont this ` set line"
    by auto
  moreover have "sumLeft (map (partWidth \<circ> measured this m) line)
      = sumLeft (map partWidth (map (measured this m) line))" by (simp add: comp_def)
  ultimately show ?thesis unfolding ellInv_def by simp
qed

lemma sumLeft_zeros:
  "(0::'n::{zero,plus}) + 0 = 0 \<Longrightarrow> sumLeft (replicate j (0::'n)) = 0"
proof (induction j)
  case 0
  show ?case by simp
next
  case (Suc j)
  have "replicate (Suc j) (0::'n) = replicate j 0 @ [0]"
    by (simp add: replicate_append_same)
  then have "sumLeft (replicate (Suc j) (0::'n)) = sumLeft (replicate j 0) + 0"
    by (simp only: sumLeft_snoc)
  then show ?case using Suc by simp
qed

text \<open>
  Claim C8, amended. Both loops of the ellipsis policy terminate (the inner one shortens
  the characters, the outer one drops a run or stops). For every group and target width
  the emitted line has no run left, or its recorded width is at most the target width, or
  that width is not comparable with the target (on the doubles: one of them is NaN). For
  a coherent caller, the recorded width of a line that kept a run is the sum of the widths
  of its runs, and an emptied line records 0 or, above the target, the width of the bare
  marker (added to 0) in the font of a run of the group.
\<close>

theorem ellipsis_fits_or_empty:
  fixes this :: "'n::{zero,plus,ord} TextBlock"
  defines "r \<equiv> (\<lambda>m line W ctx. fst (parseStructuredTextLineEllipsis this m line W ctx))"
  shows "(parts (r m line W ctx) = [] \<or> lineWidth (r m line W ctx) \<le> W
          \<or> incomparable (lineWidth (r m line W ctx)) W)
    \<and> (coherentEmptyRuns m line \<longrightarrow>
         (parts (r m line W ctx) \<noteq> [] \<longrightarrow>
            lineWidth (r m line W ctx) = sumLeft (map partWidth (parts (r m line W ctx))))
         \<and> (parts (r m line W ctx) = [] \<longrightarrow>
              lineWidth (r m line W ctx) = 0
              \<or> (W < lineWidth (r m line W ctx)
                 \<and> (\<exists>p\<in>set line.
                       lineWidth (r m line W ctx) = 0 + m (partFont this p) ellipsisMarker))))"
proof -
  let ?L = "map (measured this m) line"
  let ?w = "sumLeft (map (partWidth \<circ> measured this m) line)"
  obtain line' lw' ctx' where run:
    "ellipsisLoop this m W (?L, ?w, widthContext this m line ctx) = (line', lw', ctx')"
    by (cases "ellipsisLoop this m W (?L, ?w, widthContext this m line ctx)") auto
  have res: "r m line W ctx = \<lparr>parts = line', lineWidth = lw'\<rparr>"
    using run by (simp add: r_def parseStructuredTextLineEllipsis_def structuredTextWidth_eq)
  have exit: "line' = [] \<or> \<not> W < lw'" using ellipsisLoop_exit [OF run] .
  then have fits: "line' = [] \<or> lw' \<le> W \<or> incomparable lw' W"
    by (auto simp: incomparable_def)
  have cond: "(line' \<noteq> [] \<longrightarrow> lw' = sumLeft (map partWidth line'))
      \<and> (line' = [] \<longrightarrow> lw' = 0
            \<or> (W < lw' \<and> (\<exists>p\<in>set line. lw' = 0 + m (partFont this p) ellipsisMarker)))"
    if h: "coherentEmptyRuns m line"
  proof -
    from h have a0: "(0::'n) + 0 = 0" and a1: "\<forall>f. m f [] = 0"
      and a3: "\<forall>p\<in>set line. text p = [] \<longrightarrow> width p = None \<or> width p = Some 0"
      by (simp_all add: coherentEmptyRuns_def)
    have inv: "ellInv this m (partFont this ` set line) W line' lw'"
      using ellipsisLoop_inv [OF ellInv_initial [of m line this W, OF a1 a3] run] .
    then have alt: "lw' = sumLeft (map partWidth line')
        \<or> (W < lw' \<and> (\<exists>j. lw' = sumLeft (map partWidth line' @ replicate j 0)
              \<or> (\<exists>f\<in>partFont this ` set line.
                     lw' = sumLeft (map partWidth line' @ replicate j 0 @ [m f ellipsisMarker]))))"
      by (simp add: ellInv_def)
    have fresh: "line' \<noteq> [] \<longrightarrow> lw' = sumLeft (map partWidth line')"
      using alt exit by auto
    have emptied: "lw' = 0
        \<or> (W < lw' \<and> (\<exists>p\<in>set line. lw' = 0 + m (partFont this p) ellipsisMarker))"
      if e: "line' = []"
      using alt
    proof
      assume "lw' = sumLeft (map partWidth line')"
      then show ?thesis using e by simp
    next
      assume b: "W < lw' \<and> (\<exists>j. lw' = sumLeft (map partWidth line' @ replicate j 0)
              \<or> (\<exists>f\<in>partFont this ` set line.
                     lw' = sumLeft (map partWidth line' @ replicate j 0 @ [m f ellipsisMarker])))"
      then obtain j where j: "lw' = sumLeft (replicate j 0)
              \<or> (\<exists>f\<in>partFont this ` set line. lw' = sumLeft (replicate j 0 @ [m f ellipsisMarker]))"
        using e by auto
      then show ?thesis
      proof
        assume "lw' = sumLeft (replicate j 0)"
        then show ?thesis using sumLeft_zeros [OF a0] by simp
      next
        assume "\<exists>f\<in>partFont this ` set line. lw' = sumLeft (replicate j 0 @ [m f ellipsisMarker])"
        then obtain p where "p \<in> set line"
          and "lw' = sumLeft (replicate j 0) + m (partFont this p) ellipsisMarker"
          by auto
        then show ?thesis using sumLeft_zeros [OF a0, of j] b by auto
      qed
    qed
    show ?thesis using fresh emptied by simp
  qed
  show ?thesis using fits cond unfolding res by auto
qed

lemma ellipsisLoop_unfold:
  "ellipsisLoop this m W (line, lw, ctx) =
     (if line \<noteq> [] \<and> lw > W then
        ellipsisLoop this m W
          (if fst (snd (ellipsisChars this m W (text (last line)) (line, lw, ctx))) > W
           then butlast (fst (ellipsisChars this m W (text (last line)) (line, lw, ctx)))
           else fst (ellipsisChars this m W (text (last line)) (line, lw, ctx)),
           fst (snd (ellipsisChars this m W (text (last line)) (line, lw, ctx))),
           snd (snd (ellipsisChars this m W (text (last line)) (line, lw, ctx))))
      else (line, lw, ctx))"
  by (subst ellipsisLoop.simps) (simp split: prod.splits)

text \<open>
  Examples on the doubles, with ten pixels for each character: \<open>abcdefgh\<close> and the target
  40 (three characters and the marker are kept); \<open>ab\<close> and the target 5 (the group is
  emptied and the recorded width is that of the marker).
\<close>

lemma ellipsis_truncated_example:
  "fst (parseStructuredTextLineEllipsis exampleBlock tenPerCharDouble
          [plainPart (str ''abcdefgh'')] (jsInt 40) freshContext)
   = \<lparr>parts = [(plainPart (str ''abc'' @ ellipsisMarker))\<lparr>width := Some (jsInt 40)\<rparr>],
      lineWidth = jsInt 40\<rparr>"
  by (simp add: parseStructuredTextLineEllipsis_def structuredTextWidth_eq ellipsisLoop_unfold
        ellipsisChars_unfold measured_def partWidth_def sumLeft_def tenPerCharDouble_def
        plainPart_def str_def ellipsisMarker_def jsInt_0 [symmetric] jsInt_add jsInt_less_iff
        split: prod.splits)

lemma ellipsis_emptied_example:
  "fst (parseStructuredTextLineEllipsis exampleBlock tenPerCharDouble
          [plainPart (str ''ab'')] (jsInt 5) freshContext)
   = \<lparr>parts = [], lineWidth = jsInt 10\<rparr>"
  by (simp add: parseStructuredTextLineEllipsis_def structuredTextWidth_eq ellipsisLoop_unfold
        ellipsisChars_unfold measured_def partWidth_def sumLeft_def tenPerCharDouble_def
        plainPart_def str_def ellipsisMarker_def jsInt_0 [symmetric] jsInt_add jsInt_less_iff
        split: prod.splits)

theorem ellipsis_fits_or_empty_example:
  "fst (parseStructuredTextLineEllipsis exampleBlock tenPerCharDouble
          [plainPart (str ''abcdefgh'')] (jsInt 40) freshContext)
     = \<lparr>parts = [(plainPart (str ''abc'' @ ellipsisMarker))\<lparr>width := Some (jsInt 40)\<rparr>],
        lineWidth = jsInt 40\<rparr>
   \<and> jsInt 40 \<le> jsInt 40
   \<and> lineWidth (fst (parseStructuredTextLineEllipsis exampleBlock tenPerCharDouble
                       [plainPart (str ''abcdefgh'')] (jsInt 40) freshContext))
       = sumLeft (map partWidth (parts (fst (parseStructuredTextLineEllipsis exampleBlock
           tenPerCharDouble [plainPart (str ''abcdefgh'')] (jsInt 40) freshContext))))
   \<and> fst (parseStructuredTextLineEllipsis exampleBlock tenPerCharDouble
          [plainPart (str ''ab'')] (jsInt 5) freshContext)
     = \<lparr>parts = [], lineWidth = jsInt 10\<rparr>
   \<and> jsInt 5 < jsInt 10
   \<and> jsInt 10 = 0 + tenPerCharDouble
                      (partFont exampleBlock (plainPart (str ''ab'') :: jsnum StructuredTextPart))
                      ellipsisMarker"
proof -
  let ?r1 = "fst (parseStructuredTextLineEllipsis exampleBlock tenPerCharDouble
          [plainPart (str ''abcdefgh'')] (jsInt 40) freshContext)"
  let ?r2 = "fst (parseStructuredTextLineEllipsis exampleBlock tenPerCharDouble
          [plainPart (str ''ab'')] (jsInt 5) freshContext)"
  have h1: "coherentEmptyRuns tenPerCharDouble [plainPart (str ''abcdefgh'')]"
    by (simp add: coherentEmptyRuns_def tenPerCharDouble_def plainPart_def str_def
          jsInt_0 [symmetric] jsInt_add)
  have h2: "coherentEmptyRuns tenPerCharDouble [plainPart (str ''ab'')]"
    by (simp add: coherentEmptyRuns_def tenPerCharDouble_def plainPart_def str_def
          jsInt_0 [symmetric] jsInt_add)
  have le: "jsInt 40 \<le> jsInt 40" and lt: "jsInt 5 < jsInt 10"
    by (simp_all add: jsInt_less_iff jsInt_le_iff)
  have nz: "jsInt 10 \<noteq> 0"
    by (simp add: jsInt_def round64_def Let_def zero_jsnum_def)
  have ne: "parts ?r1 \<noteq> []" by (simp add: ellipsis_truncated_example)
  have e: "parts ?r2 = []" and w: "lineWidth ?r2 = jsInt 10"
    by (simp_all add: ellipsis_emptied_example)
  have a: "lineWidth ?r1 = sumLeft (map partWidth (parts ?r1))"
    using ellipsis_fits_or_empty [of exampleBlock tenPerCharDouble
        "[plainPart (str ''abcdefgh'')]" "jsInt 40" freshContext] h1 ne by blast
  have "lineWidth ?r2 = 0
      \<or> (jsInt 5 < lineWidth ?r2
         \<and> (\<exists>p\<in>set [plainPart (str ''ab'') :: jsnum StructuredTextPart].
               lineWidth ?r2 = 0 + tenPerCharDouble (partFont exampleBlock p) ellipsisMarker))"
    using ellipsis_fits_or_empty [of exampleBlock tenPerCharDouble
        "[plainPart (str ''ab'')]" "jsInt 5" freshContext,
        THEN conjunct2, THEN mp, OF h2, THEN conjunct2, THEN mp, OF e] .
  then have b: "jsInt 10 = 0 + tenPerCharDouble
                      (partFont exampleBlock (plainPart (str ''ab'') :: jsnum StructuredTextPart))
                      ellipsisMarker"
    unfolding w using nz by simp
  show ?thesis
    by (intro conjI) (fact ellipsis_truncated_example le a ellipsis_emptied_example lt b)+
qed

text \<open>
  Claim C8, as stated, fails for a run with empty text that carries a cached width (a
  fragment of the newline pre-pass is a copy of its run, the cached width included): the
  run of width 100 is dropped without any measurement, and the emptied line keeps the
  width 100, above the target 50, although the marker alone measures 10 and fits.
\<close>

theorem ellipsis_stale_width_counterexample:
  "fst (parseStructuredTextLineEllipsis exampleBlock tenPerCharDouble
          [(plainPart [])\<lparr>width := Some (jsInt 100)\<rparr>] (jsInt 50) freshContext)
     = \<lparr>parts = [], lineWidth = jsInt 100\<rparr>
   \<and> \<not> jsInt 100 \<le> jsInt 50
   \<and> tenPerCharDouble (partFont exampleBlock ((plainPart [])\<lparr>width := Some (jsInt 100)\<rparr>))
        ellipsisMarker = jsInt 10
   \<and> jsInt 10 \<le> jsInt 50"
  by (simp add: parseStructuredTextLineEllipsis_def structuredTextWidth_eq ellipsisLoop_unfold
        ellipsisChars_unfold measured_def partWidth_def sumLeft_def tenPerCharDouble_def
        plainPart_def str_def ellipsisMarker_def jsInt_0 [symmetric] jsInt_add jsInt_less_iff
        jsInt_le_iff split: prod.splits)

text \<open>
  Such a run arises in line breaking itself. The run \<open>abcdefghij\<newline>\<close> with the cached
  width 100 is cut at its newline into the fragments \<open>abcdefghij\<close> and the empty text,
  both with the width 100: the second line of the result has no run and the recorded
  width 100, above the reference width 50.
\<close>

lemma ellipsis_stale_fragment_example:
  "fst (breakStructuredTextLines
          (exampleBlock\<lparr>structuredText :=
              [(plainPart (str ''abcdefghij\<newline>''))\<lparr>width := Some (jsInt 100)\<rparr>],
            textWrapping := Ellipsis\<rparr>)
          tenPerCharDouble (jsInt 50) freshContext)
   = [\<lparr>parts = [(plainPart (str ''abcd'' @ ellipsisMarker))\<lparr>width := Some (jsInt 50)\<rparr>],
       lineWidth = jsInt 50\<rparr>,
      \<lparr>parts = [], lineWidth = jsInt 100\<rparr>,
      \<lparr>parts = [], lineWidth = 0\<rparr>]"
  by (simp add: breakStructuredTextLines_def exampleBlock_def
        parseStructuredTextLineEllipsis_def structuredTextWidth_eq ellipsisLoop_unfold
        ellipsisChars_unfold measured_def partWidth_def sumLeft_def tenPerCharDouble_def
        plainPart_def str_def ellipsisMarker_def jsInt_add jsInt_less_iff
        jsInt_0 [symmetric] split: prod.splits)

text \<open>
  When the measurement service returns NaN, no comparison of the policy holds: the group
  is returned as it is, with the recorded width NaN.
\<close>

lemma ellipsis_nan_example:
  "fst (parseStructuredTextLineEllipsis exampleBlock nanService
          [plainPart (str ''abcdefgh'')] (jsInt 40) freshContext)
   = \<lparr>parts = [(plainPart (str ''abcdefgh''))\<lparr>width := Some NaN\<rparr>], lineWidth = NaN\<rparr>"
  by (simp add: parseStructuredTextLineEllipsis_def structuredTextWidth_eq ellipsisLoop_unfold
        measured_def partWidth_def sumLeft_def nanService_def plainPart_def str_def
        zero_jsnum_def jsInt_def round64_def Let_def split: prod.splits)


end
